theory Spec2Isabelle
  imports Main "HOL-Library.Word"
begin

section \<open>Process lifecycle of the OCI engine (oci/process.go)\<close>

text \<open>
  The Go file drives the operating system, a handshake connection and a few collaborator
  packages. Every such call is an event of a trace, recorded in program order together with
  the result the call returned, and the result itself is read from an environment whose
  answers may depend on everything that happened before the call. A Go \<open>error\<close> is a
  value of type \<open>error option\<close>: \<open>None\<close> is Go's \<open>nil\<close>.
\<close>

subsection \<open>Errors\<close>

datatype error =
    io_EOF
  | io_ErrShortWrite
  | Error string

fun error_msg :: "error \<Rightarrow> string" where
  "error_msg io_EOF = ''EOF''"
| "error_msg io_ErrShortWrite = ''short write''"
| "error_msg (Error m) = m"

type_synonym byte = "8 word"

subsection \<open>The runtime configuration read by the engine\<close>

text \<open>
  The fields of \<open>engine.EngineConfig\<close> and \<open>engine.CommonConfig\<close> that the file reads, under
  the names of their last selectors: \<open>OciConfig.Process.Cwd\<close>, \<open>Args\<close>, \<open>Env\<close> and
  \<open>Rlimits\<close> (the \<open>Process\<close> pointer is taken to be set), \<open>EmptyProcess\<close>, \<open>MasterPts\<close>,
  \<open>SlavePts\<close>, \<open>OciConfig.Hooks\<close> (a pointer, \<open>None\<close> for \<open>nil\<close>) and \<open>ContainerID\<close>.
  \<open>POSIXRlimit\<close> has the fields of the runtime specification; the limits are \<open>uint64\<close>.
\<close>

record POSIXRlimit =
  Type :: string
  Hard :: "64 word"
  Soft :: "64 word"

record Hook =
  HookPath :: string
  HookArgs :: "string list"

record Hooks =
  Prestart :: "Hook list"
  Poststart :: "Hook list"

record EngineConfig =
  Cwd :: string
  Args :: "string list"
  Env :: "string list"
  Rlimits :: "POSIXRlimit list"
  EmptyProcess :: bool
  MasterPts :: int
  SlavePts :: int
  OciHooks :: "Hooks option"
  ContainerID :: string

subsection \<open>Events of the child runner and its environment\<close>

datatype signal = SIGCHLD | SIGINT | SIGTERM

datatype event =
    Chdir string "error option"
  | RlimitSet string "64 word" "64 word" "error option"
  | Setenv string string
  | LookPath string "error + string"
  | Dup3 int int "error option"
  | Close int "error option"
  | Setsid "error option"
  | SetCtty int "error option"
  | ConnWrite "byte list" "error option"
  | ConnRead int "error option"
  | ConnClose
  | SignalNotify
  | SecurityConfigure "error option"
  | Exec string "string list" "string list" "error option"
  | LogError string
  | Received signal
  | Wait4 int

text \<open>
  The environment of the child runner. Each call is answered from the events so far.
  \<open>conn_Write\<close> and \<open>conn_Read\<close> are the two directions of \<open>masterConn\<close>; the byte
  count of a write is dropped because the code discards it (\<open>_, err := ...\<close>).
  \<open>syscall_Exec\<close> answers \<open>None\<close> when the process image is replaced, and an error when
  Go's \<open>syscall.Exec\<close> returns. \<open>signals\<close> are the signals delivered to the empty process,
  each with the positive pids that successive \<open>Wait4\<close> calls reap while it is handled: a
  process has finitely many children, so after them \<open>Wait4\<close> reports \<open>-1\<close>.
\<close>

record sys =
  rlimit_Set :: "event list \<Rightarrow> string \<Rightarrow> 64 word \<Rightarrow> 64 word \<Rightarrow> error option"
  os_Chdir :: "event list \<Rightarrow> string \<Rightarrow> error option"
  osexec_LookPath :: "event list \<Rightarrow> string \<Rightarrow> error + string"
  syscall_Dup3 :: "event list \<Rightarrow> int \<Rightarrow> int \<Rightarrow> error option"
  syscall_Close :: "event list \<Rightarrow> int \<Rightarrow> error option"
  syscall_Setsid :: "event list \<Rightarrow> error option"
  syscall_TIOCSCTTY :: "event list \<Rightarrow> int \<Rightarrow> error option"
  conn_Write :: "event list \<Rightarrow> byte list \<Rightarrow> error option"
  conn_Read :: "event list \<Rightarrow> int \<times> error option"
  security_Configure :: "event list \<Rightarrow> error option"
  syscall_Exec :: "event list \<Rightarrow> string \<Rightarrow> string list \<Rightarrow> string list \<Rightarrow> error option"
  signals :: "(signal \<times> int list) list"

text \<open>
  How a Go function ends: it returns its \<open>error\<close>, it panics, the process image is replaced
  by \<open>exec\<close>, the process exits, or it blocks forever.
\<close>

datatype outcome =
    Return "error option"
  | Panic string
  | Replaced
  | Exit int
  | Blocked

subsection \<open>setRlimit\<close>

text \<open>
  The loop body of \<open>setRlimit\<close>: the limit is set first, and only then is the kind looked
  up among the kinds already seen (\<open>resources\<close>).
\<close>

fun setRlimit_loop ::
  "sys \<Rightarrow> POSIXRlimit list \<Rightarrow> string list \<Rightarrow> event list \<Rightarrow> event list \<times> error option" where
  "setRlimit_loop os [] resources tr = (tr, None)"
| "setRlimit_loop os (rl # rlimits) resources tr =
     (let r = rlimit_Set os tr (Type rl) (Soft rl) (Hard rl);
          tr' = tr @ [RlimitSet (Type rl) (Soft rl) (Hard rl) r]
      in case r of
           Some err \<Rightarrow> (tr', Some err)
         | None \<Rightarrow>
             (case find (\<lambda>t. t = Type rl) resources of
                Some t \<Rightarrow> (tr', Some (Error (t @ '' was already set'')))
              | None \<Rightarrow> setRlimit_loop os rlimits (resources @ [Type rl]) tr'))"

definition setRlimit :: "sys \<Rightarrow> POSIXRlimit list \<Rightarrow> event list \<Rightarrow> event list \<times> error option" where
  "setRlimit os rlimits tr = setRlimit_loop os rlimits [] tr"

text \<open>The event of a limit-set call that succeeded.\<close>

definition applied :: "POSIXRlimit \<Rightarrow> event" where
  "applied rl = RlimitSet (Type rl) (Soft rl) (Hard rl) None"

text \<open>
  Every limit-set call for the entries of a list succeeds, each one asked after the
  earlier ones have succeeded.
\<close>

fun all_set_ok :: "sys \<Rightarrow> event list \<Rightarrow> POSIXRlimit list \<Rightarrow> bool" where
  "all_set_ok os tr [] = True"
| "all_set_ok os tr (rl # rls) =
     (rlimit_Set os tr (Type rl) (Soft rl) (Hard rl) = None \<and> all_set_ok os (tr @ [applied rl]) rls)"

subsection \<open>The calls of the child runner\<close>

definition call_Chdir :: "sys \<Rightarrow> string \<Rightarrow> event list \<Rightarrow> event list \<times> error option" where
  "call_Chdir os dir tr = (let r = os_Chdir os tr dir in (tr @ [Chdir dir r], r))"

definition call_LookPath :: "sys \<Rightarrow> string \<Rightarrow> event list \<Rightarrow> event list \<times> (error + string)" where
  "call_LookPath os file tr = (let r = osexec_LookPath os tr file in (tr @ [LookPath file r], r))"

definition call_Dup3 :: "sys \<Rightarrow> int \<Rightarrow> int \<Rightarrow> event list \<Rightarrow> event list \<times> error option" where
  "call_Dup3 os oldfd newfd tr = (let r = syscall_Dup3 os tr oldfd newfd in (tr @ [Dup3 oldfd newfd r], r))"

definition call_Close :: "sys \<Rightarrow> int \<Rightarrow> event list \<Rightarrow> event list \<times> error option" where
  "call_Close os fd tr = (let r = syscall_Close os tr fd in (tr @ [Close fd r], r))"

definition call_Setsid :: "sys \<Rightarrow> event list \<Rightarrow> event list \<times> error option" where
  "call_Setsid os tr = (let r = syscall_Setsid os tr in (tr @ [Setsid r], r))"

definition call_TIOCSCTTY :: "sys \<Rightarrow> int \<Rightarrow> event list \<Rightarrow> event list \<times> error option" where
  "call_TIOCSCTTY os fd tr = (let r = syscall_TIOCSCTTY os tr fd in (tr @ [SetCtty fd r], r))"

definition call_Write :: "sys \<Rightarrow> byte list \<Rightarrow> event list \<Rightarrow> event list \<times> error option" where
  "call_Write os p tr = (let r = conn_Write os tr p in (tr @ [ConnWrite p r], r))"

definition call_Read :: "sys \<Rightarrow> event list \<Rightarrow> event list \<times> error option" where
  "call_Read os tr = (let (n, r) = conn_Read os tr in (tr @ [ConnRead n r], r))"

definition call_Configure :: "sys \<Rightarrow> event list \<Rightarrow> event list \<times> error option" where
  "call_Configure os tr = (let r = security_Configure os tr in (tr @ [SecurityConfigure r], r))"

definition call_Exec ::
  "sys \<Rightarrow> string \<Rightarrow> string list \<Rightarrow> string list \<Rightarrow> event list \<Rightarrow> event list \<times> error option" where
  "call_Exec os argv0 argv envv tr =
     (let r = syscall_Exec os tr argv0 argv envv in (tr @ [Exec argv0 argv envv r], r))"

text \<open>The one-byte tokens of the handshake: \<open>[]byte("t")\<close> and \<open>[]byte("s")\<close>.\<close>

definition token_t :: "byte list" where
  "token_t = [116]"

definition token_s :: "byte list" where
  "token_s = [115]"

subsection \<open>emptyProcess\<close>

text \<open>
  The inner loop on \<open>SIGCHLD\<close>: \<open>Wait4\<close> is called until it returns a pid that is not
  positive. The outer loop receives the signals one by one; it exits the process on
  \<open>SIGINT\<close> and \<open>SIGTERM\<close> and blocks on the channel when no signal is left.
\<close>

fun reap :: "int list \<Rightarrow> event list \<Rightarrow> event list" where
  "reap [] tr = tr @ [Wait4 (- 1)]"
| "reap (pid # pids) tr = (if pid \<le> 0 then tr @ [Wait4 pid] else reap pids (tr @ [Wait4 pid]))"

fun signal_loop :: "(signal \<times> int list) list \<Rightarrow> event list \<Rightarrow> event list \<times> outcome" where
  "signal_loop [] tr = (tr, Blocked)"
| "signal_loop ((s, pids) # rest) tr =
     (case s of
        SIGCHLD \<Rightarrow> signal_loop rest (reap pids (tr @ [Received s]))
      | SIGINT \<Rightarrow> (tr @ [Received s], Exit 0)
      | SIGTERM \<Rightarrow> (tr @ [Received s], Exit 0))"

definition emptyProcess :: "sys \<Rightarrow> event list \<Rightarrow> event list \<times> outcome" where
  "emptyProcess os tr =
     (case call_Write os token_t tr of
        (tr, Some err) \<Rightarrow> (tr, Return (Some (Error (''failed to pause process: '' @ error_msg err))))
      | (tr, None) \<Rightarrow>
     (case call_Read os tr of
        (tr, Some err) \<Rightarrow>
          (tr, Return (Some (Error (''failed to receive ack from Smaster: '' @ error_msg err))))
      | (tr, None) \<Rightarrow>
     (case call_Configure os (tr @ [ConnClose, SignalNotify]) of
        (tr, Some err) \<Rightarrow>
          (tr, Return (Some (Error (''failed to apply security configuration: '' @ error_msg err))))
      | (tr, None) \<Rightarrow> signal_loop (signals os) tr)))"

subsection \<open>StartProcess\<close>

text \<open>\<open>filepath.IsAbs\<close> on Unix: the path starts with a slash.\<close>

definition IsAbs :: "string \<Rightarrow> bool" where
  "IsAbs path = (case path of [] \<Rightarrow> False | c # _ \<Rightarrow> c = CHR ''/'')"

definition HasPrefix :: "string \<Rightarrow> string \<Rightarrow> bool" where
  "HasPrefix s pre = (take (length pre) s = pre)"

text \<open>The loop over \<open>Process.Env\<close>: every \<open>PATH=\<close> entry is exported, in order.\<close>

fun setenv_PATH :: "string list \<Rightarrow> event list \<Rightarrow> event list" where
  "setenv_PATH [] tr = tr"
| "setenv_PATH (e # es) tr =
     setenv_PATH es (if HasPrefix e ''PATH='' then tr @ [Setenv ''PATH'' (drop 5 e)] else tr)"

text \<open>The block guarded by \<open>MasterPts != -1\<close>; standard input, output and error are 0, 1, 2.\<close>

definition setup_pty :: "sys \<Rightarrow> EngineConfig \<Rightarrow> event list \<Rightarrow> event list \<times> error option" where
  "setup_pty os cfg tr =
     (let slaveFd = SlavePts cfg in
      case call_Dup3 os slaveFd 0 tr of (tr, Some err) \<Rightarrow> (tr, Some err) | (tr, None) \<Rightarrow>
     (case call_Dup3 os slaveFd 1 tr of (tr, Some err) \<Rightarrow> (tr, Some err) | (tr, None) \<Rightarrow>
     (case call_Dup3 os slaveFd 2 tr of (tr, Some err) \<Rightarrow> (tr, Some err) | (tr, None) \<Rightarrow>
     (case call_Close os (MasterPts cfg) tr of (tr, Some err) \<Rightarrow> (tr, Some err) | (tr, None) \<Rightarrow>
     (case call_Close os slaveFd tr of (tr, Some err) \<Rightarrow> (tr, Some err) | (tr, None) \<Rightarrow>
     (case call_Setsid os tr of (tr, Some err) \<Rightarrow> (tr, Some err) | (tr, None) \<Rightarrow>
     (case call_TIOCSCTTY os 0 tr of
        (tr, Some errno) \<Rightarrow>
          (tr, Some (Error (''failed to set crontrolling terminal: '' @ error_msg errno)))
      | (tr, None) \<Rightarrow> (tr, None))))))))"

text \<open>
  Lines 151 to 175: the pause token, the blocking read of the resume token, the security
  configuration, \<open>exec\<close>, and the token written when \<open>exec\<close> returns.
\<close>

definition handshake_exec ::
  "sys \<Rightarrow> string \<Rightarrow> string list \<Rightarrow> string list \<Rightarrow> event list \<Rightarrow> event list \<times> outcome" where
  "handshake_exec os argv0 argv envv tr =
     (case call_Write os token_t tr of
        (tr, Some err) \<Rightarrow> (tr, Return (Some (Error (''failed to pause process: '' @ error_msg err))))
      | (tr, None) \<Rightarrow>
     (case call_Read os tr of
        (tr, Some err) \<Rightarrow>
          (tr, Return (Some (Error (''failed to receive ack from Smaster: '' @ error_msg err))))
      | (tr, None) \<Rightarrow>
     (case call_Configure os tr of
        (tr, Some err) \<Rightarrow>
          (tr, Return (Some (Error (''failed to apply security configuration: '' @ error_msg err))))
      | (tr, None) \<Rightarrow>
     (case call_Exec os argv0 argv envv tr of
        (tr, None) \<Rightarrow> (tr, Replaced)
      | (tr, Some err) \<Rightarrow>
          (let (tr, w) = call_Write os token_t tr;
               tr = (case w of
                       Some e \<Rightarrow> tr @ [LogError (''fail to send data to Smaster: '' @ error_msg e)]
                     | None \<Rightarrow> tr)
           in (tr, Return (Some (Error (''exec '' @ argv0 @ '' failed: '' @ error_msg err)))))))))"

text \<open>
  \<open>StartProcess\<close>. \<open>args[0]\<close> on an empty argument vector is Go's index-out-of-range panic;
  after the lookup \<open>args[0]\<close> holds the resolved path.
\<close>

definition StartProcess :: "sys \<Rightarrow> EngineConfig \<Rightarrow> event list \<Rightarrow> event list \<times> outcome" where
  "StartProcess os cfg tr =
     (let cwd = (if Cwd cfg = [] then ''/'' else Cwd cfg) in
      if \<not> IsAbs cwd then (tr, Return (Some (Error ''cwd property must be an absolute path'')))
      else
     (case call_Chdir os cwd tr of
        (tr, Some err) \<Rightarrow>
          (tr, Return (Some (Error (''can't enter in current working directory: '' @ error_msg err))))
      | (tr, None) \<Rightarrow>
     (case setRlimit os (Rlimits cfg) tr of
        (tr, Some err) \<Rightarrow> (tr, Return (Some err))
      | (tr, None) \<Rightarrow>
          if EmptyProcess cfg then emptyProcess os tr
          else
            (let tr = setenv_PATH (Env cfg) tr in
             case Args cfg of
               [] \<Rightarrow> (tr, Panic ''index out of range'')
             | arg0 # rest \<Rightarrow>
                 (case call_LookPath os arg0 tr of
                    (tr, Inl err) \<Rightarrow> (tr, Return (Some (Error (error_msg err))))
                  | (tr, Inr bpath) \<Rightarrow>
                      (case (if MasterPts cfg \<noteq> - 1 then setup_pty os cfg tr else (tr, None)) of
                         (tr, Some err) \<Rightarrow> (tr, Return (Some err))
                       | (tr, None) \<Rightarrow> handshake_exec os bpath (bpath # rest) (Env cfg) tr))))))"

section \<open>The parent controller\<close>

subsection \<open>Events of the controller and its environment\<close>

text \<open>
  \<open>instance.File\<close>, of which only the field \<open>Path\<close> is read. \<open>instance.Get\<close> returns a
  pointer to it, which may be \<open>nil\<close> (\<open>None\<close>), besides its error.
\<close>

record File =
  Path :: string

datatype cevent =
    Kill int
  | RunHook Hook "error option"
  | InstanceGet string "File option" "error option"
  | CreateSocket string "error option"
  | UpdateState string "error option"
  | GoHandleStream int
  | MasterWrite "byte list" "error option"
  | MasterRead int "error option"
  | LogWarning string

text \<open>
  The collaborators of the controller, answered from the events so far. \<open>updateState\<close> is
  a method of the engine defined outside process.go. \<open>filepath.Dir\<close> and \<open>filepath.Join\<close>
  are parameters.
\<close>

record ctl =
  exec_Hook :: "cevent list \<Rightarrow> Hook \<Rightarrow> error option"
  instance_Get :: "cevent list \<Rightarrow> string \<Rightarrow> File option \<times> error option"
  unix_CreateSocket :: "cevent list \<Rightarrow> string \<Rightarrow> error option"
  updateState :: "cevent list \<Rightarrow> string \<Rightarrow> error option"
  masterConn_Write :: "cevent list \<Rightarrow> byte list \<Rightarrow> error option"
  masterConn_Read :: "cevent list \<Rightarrow> int \<times> error option"
  filepath_Dir :: "string \<Rightarrow> string"
  filepath_Join :: "string \<Rightarrow> string \<Rightarrow> string"

text \<open>
  \<open>State.Annotations\<close> is a Go map, which may be \<open>nil\<close> (\<open>None\<close>): storing into a
  \<open>nil\<close> map panics.
\<close>

type_synonym annotations = "(string \<rightharpoonup> string) option"

definition attach_socket_key :: string where
  "attach_socket_key = ''io.sylabs.runtime.oci.attach-socket''"

subsection \<open>PreStartProcess\<close>

text \<open>The loop over \<open>hooks.Prestart\<close>: the first failing hook ends it.\<close>

fun prestart_hooks :: "ctl \<Rightarrow> Hook list \<Rightarrow> cevent list \<Rightarrow> cevent list \<times> error option" where
  "prestart_hooks c [] tr = (tr, None)"
| "prestart_hooks c (h # hs) tr =
     (case exec_Hook c tr h of
        Some err \<Rightarrow> (tr @ [RunHook h (Some err)], Some err)
      | None \<Rightarrow> prestart_hooks c hs (tr @ [RunHook h None]))"

text \<open>
  Lines 200 to 229, after the hooks. The error of \<open>instance.Get\<close> is bound and never
  read; \<open>file.Path\<close> dereferences the returned pointer. The last read succeeds only on
  \<open>io.EOF\<close>; otherwise the function returns the error of the read, whatever it is.
\<close>

definition attach_and_release ::
  "ctl \<Rightarrow> EngineConfig \<Rightarrow> annotations \<Rightarrow> cevent list \<Rightarrow> annotations \<times> cevent list \<times> outcome" where
  "attach_and_release c cfg ann tr =
     (let master = (if MasterPts cfg \<noteq> - 1 then MasterPts cfg else 0);
          (file, err) = instance_Get c tr (ContainerID cfg);
          tr = tr @ [InstanceGet (ContainerID cfg) file err]
      in case file of
           None \<Rightarrow> (ann, tr, Panic ''invalid memory address or nil pointer dereference'')
         | Some f \<Rightarrow>
             (let socket = filepath_Join c (filepath_Dir c (Path f)) (ContainerID cfg @ ''.sock'')
              in case ann of
                   None \<Rightarrow> (ann, tr, Panic ''assignment to entry in nil map'')
                 | Some m \<Rightarrow>
                     (let ann = Some (m(attach_socket_key \<mapsto> socket));
                          r = unix_CreateSocket c tr socket;
                          tr = tr @ [CreateSocket socket r]
                      in case r of
                           Some err \<Rightarrow> (ann, tr, Return (Some err))
                         | None \<Rightarrow>
                             (let r = updateState c tr ''created'';
                                  tr = tr @ [UpdateState ''created'' r]
                              in case r of
                                   Some err \<Rightarrow> (ann, tr, Return (Some err))
                                 | None \<Rightarrow>
                                     (let tr = tr @ [GoHandleStream master];
                                          r = masterConn_Write c tr token_s;
                                          tr = tr @ [MasterWrite token_s r]
                                      in case r of
                                           Some err \<Rightarrow>
                                             (ann, tr, Return (Some (Error
                                                (''failed to send ACK to start process: '' @ error_msg err))))
                                         | None \<Rightarrow>
                                             (let (n, err) = masterConn_Read c tr;
                                                  tr = tr @ [MasterRead n err]
                                              in if err \<noteq> Some io_EOF then (ann, tr, Return err)
                                                 else (ann, tr, Return None)))))))"

text \<open>Lines 183 to 192: the stop signal, whose result is dropped, and the pre-start hooks.\<close>

definition stop_and_hooks :: "ctl \<Rightarrow> EngineConfig \<Rightarrow> int \<Rightarrow> cevent list \<Rightarrow> cevent list \<times> error option" where
  "stop_and_hooks c cfg pid tr =
     (let tr = tr @ [Kill pid] in
      case OciHooks cfg of
        None \<Rightarrow> (tr, None)
      | Some hooks \<Rightarrow> prestart_hooks c (Prestart hooks) tr)"

definition PreStartProcess ::
  "ctl \<Rightarrow> EngineConfig \<Rightarrow> int \<Rightarrow> annotations \<Rightarrow> cevent list \<Rightarrow> annotations \<times> cevent list \<times> outcome" where
  "PreStartProcess c cfg pid ann tr =
     (case stop_and_hooks c cfg pid tr of
        (tr, Some err) \<Rightarrow> (ann, tr, Return (Some err))
      | (tr, None) \<Rightarrow> attach_and_release c cfg ann tr)"

subsection \<open>PostStartProcess\<close>

text \<open>The loop over \<open>hooks.Poststart\<close>: a failing hook is logged and the loop goes on.\<close>

fun poststart_hooks :: "ctl \<Rightarrow> Hook list \<Rightarrow> cevent list \<Rightarrow> cevent list" where
  "poststart_hooks c [] tr = tr"
| "poststart_hooks c (h # hs) tr =
     (case exec_Hook c tr h of
        Some err \<Rightarrow> poststart_hooks c hs (tr @ [RunHook h (Some err), LogWarning (error_msg err)])
      | None \<Rightarrow> poststart_hooks c hs (tr @ [RunHook h None]))"

definition PostStartProcess :: "ctl \<Rightarrow> EngineConfig \<Rightarrow> int \<Rightarrow> cevent list \<Rightarrow> cevent list \<times> outcome" where
  "PostStartProcess c cfg pid tr =
     (let r = updateState c tr ''running'';
          tr = tr @ [UpdateState ''running'' r]
      in case r of
           Some err \<Rightarrow> (tr, Return (Some err))
         | None \<Rightarrow>
             (case OciHooks cfg of
                None \<Rightarrow> (tr, Return None)
              | Some hooks \<Rightarrow> (poststart_hooks c (Poststart hooks) tr, Return None)))"

subsection \<open>The caller of the two functions\<close>

text \<open>
  Modelled from the spec: the code that calls \<open>PreStartProcess\<close> and then
  \<open>PostStartProcess\<close> is not in process.go. By the controller's lifecycle (steps 7
  and 8), a failure of the first is fatal to startup, and on its success the second runs.
\<close>

definition controller_startup ::
  "ctl \<Rightarrow> EngineConfig \<Rightarrow> int \<Rightarrow> annotations \<Rightarrow> cevent list \<times> outcome" where
  "controller_startup c cfg pid ann =
     (case PreStartProcess c cfg pid ann [] of
        (ann, tr, Return None) \<Rightarrow> PostStartProcess c cfg pid tr
      | (ann, tr, out) \<Rightarrow> (tr, out))"

section \<open>The attach stream\<close>

subsection \<open>Writers and the broadcaster\<close>

text \<open>
  The \<open>io.Writer\<close> values the file handles: a client connection, named by a handle, and
  a pointer to a \<open>multiWriter\<close>, an address in the heap of broadcasters. A broadcaster is
  its field \<open>writers\<close>; the heap is indexed by address, and an address beyond the heap is
  the \<open>nil\<close> pointer.
\<close>

datatype writer = Conn nat | MW nat

type_synonym heap = "writer list list"

text \<open>
  A \<open>Write\<close> call that reached a connection: the handle, the bytes passed, and the count
  and error the connection returned. The connections answer from the calls so far.
\<close>

datatype wcall = Wrote nat "byte list" int "error option"

type_synonym conns = "wcall list \<Rightarrow> nat \<Rightarrow> byte list \<Rightarrow> int \<times> error option"

text \<open>
  A \<open>Write\<close> returns its count and error, or never returns because it locks a mutex the
  calling goroutine already holds, or panics on a \<open>nil\<close> broadcaster.
\<close>

datatype wresult =
    Ret int "error option" "wcall list"
  | Deadlock "wcall list"
  | NilDeref "wcall list"

text \<open>
  \<open>Writer_Write\<close> is the dynamic dispatch of \<open>w.Write(p)\<close>; on a broadcaster it is
  \<open>multiWriter.Write\<close>: lock the mutex, then run the loop over \<open>mw.writers\<close>. \<open>held\<close> are
  the broadcasters whose mutex the running call chain holds (\<open>sync.Mutex\<close> is not
  reentrant). The loop keeps the named results \<open>n, err\<close> of the failing destination.
\<close>

function (sequential)
  Writer_Write :: "conns \<Rightarrow> heap \<Rightarrow> nat list \<Rightarrow> writer \<Rightarrow> byte list \<Rightarrow> wcall list \<Rightarrow> wresult"
  and multiWriter_Write_loop ::
    "conns \<Rightarrow> heap \<Rightarrow> nat list \<Rightarrow> writer list \<Rightarrow> byte list \<Rightarrow> wcall list \<Rightarrow> wresult"
where
  "Writer_Write R h held (Conn c) p lg =
     (case R lg c p of (n, err) \<Rightarrow> Ret n err (lg @ [Wrote c p n err]))"
| "Writer_Write R h held (MW a) p lg =
     (if length h \<le> a then NilDeref lg
      else if a \<in> set held then Deadlock lg
      else multiWriter_Write_loop R h (a # held) (h ! a) p lg)"
| "multiWriter_Write_loop R h held [] p lg = Ret (int (length p)) None lg"
| "multiWriter_Write_loop R h held (w # ws) p lg =
     (case Writer_Write R h held w p lg of
        Ret n err lg' \<Rightarrow>
          if err \<noteq> None then Ret n err lg'
          else if n \<noteq> int (length p) then Ret n (Some io_ErrShortWrite) lg'
          else multiWriter_Write_loop R h held ws p lg'
      | Deadlock lg' \<Rightarrow> Deadlock lg'
      | NilDeref lg' \<Rightarrow> NilDeref lg')"
  by pat_completeness auto
termination
  apply (relation "inv_image (less_than <*lex*> less_than)
    (\<lambda>x. case x of
       Inl (R, h, held, w, p, lg) \<Rightarrow> (card ({..<length h} - set held), 0)
     | Inr (R, h, held, ws, p, lg) \<Rightarrow> (card ({..<length h} - set held), Suc (length ws)))")
  subgoal by (intro wf_inv_image wf_lex_prod wf_less_than)
  subgoal for R h held a p lg
  proof -
    assume A: "\<not> length h \<le> a" "a \<notin> set held"
    then have "a \<in> {..<length h} - set held" by simp
    then have "0 < card ({..<length h} - set held)"
      by (auto simp: card_gt_0_iff)
    then show ?thesis using A by simp
  qed
  subgoal by simp
  subgoal by simp
  done

text \<open>\<open>mw.Write(p)\<close> called by a goroutine that holds no mutex.\<close>

definition multiWriter_Write :: "conns \<Rightarrow> heap \<Rightarrow> nat \<Rightarrow> byte list \<Rightarrow> wcall list \<Rightarrow> wresult" where
  "multiWriter_Write R h a p lg = Writer_Write R h [] (MW a) p lg"

text \<open>
  \<open>Add\<close> appends the writer as it is given. \<open>None\<close> is the panic on a \<open>nil\<close> receiver.
\<close>

definition multiWriter_Add :: "heap \<Rightarrow> nat \<Rightarrow> writer \<Rightarrow> heap option" where
  "multiWriter_Add h a w = (if a < length h then Some (h[a := h ! a @ [w]]) else None)"

text \<open>
  The loop of the constructor \<open>MultiWriter\<close>: an argument that is a broadcaster
  contributes its current \<open>writers\<close>, any other argument itself. The new broadcaster is
  allocated at the end of the heap; the constructor returns the heap and its address.
\<close>

fun MultiWriter_loop :: "heap \<Rightarrow> writer list \<Rightarrow> writer list \<Rightarrow> writer list option" where
  "MultiWriter_loop h [] allwriters = Some allwriters"
| "MultiWriter_loop h (MW a # ws) allwriters =
     (if a < length h then MultiWriter_loop h ws (allwriters @ h ! a) else None)"
| "MultiWriter_loop h (w # ws) allwriters = MultiWriter_loop h ws (allwriters @ [w])"

definition MultiWriter :: "heap \<Rightarrow> writer list \<Rightarrow> (heap \<times> nat) option" where
  "MultiWriter h writers =
     (case MultiWriter_loop h writers [] of
        None \<Rightarrow> None
      | Some allwriters \<Rightarrow> Some (h @ [allwriters], length h))"

text \<open>\<open>TestWriter.Write\<close> accepts everything.\<close>

definition TestWriter_Write :: "byte list \<Rightarrow> int \<times> error option" where
  "TestWriter_Write p = (int (length p), None)"

subsection \<open>handleStream\<close>

text \<open>
  The goroutines the accept loop starts: the copy of the process output into the
  broadcaster at an address, and the copy of one client's input into the process.
\<close>

datatype task = CopyOut nat | CopyIn nat

text \<open>
  The variables of \<open>handleStream\<close>: the counter \<open>numClient\<close>, the array \<open>a\<close> of
  \<open>maxClient\<close> connections (\<open>conn_array\<close>, with \<open>None\<close> for \<open>nil\<close>), the pointer \<open>mw\<close>
  (\<open>mw_ptr\<close>), the heap that holds the broadcaster, and the goroutines started so far.
\<close>

record hs =
  numClient :: int
  conn_array :: "nat option list"
  mw_ptr :: "nat option"
  objects :: heap
  goroutines :: "task list"

definition maxClient :: int where
  "maxClient = 10"

text \<open>
  How the loop ends: blocked in \<open>Accept\<close> because no further connection arrives, ended by
  \<open>sylog.Fatalf\<close> on an accept error, or by a run-time panic.
\<close>

datatype loop_end =
    AcceptBlocked
  | Fatalf string
  | IndexOutOfRange
  | NilPointer

text \<open>
  The \<open>for\<close> loop. \<open>incoming\<close> are the results of the successive \<open>l.Accept()\<close> calls: an
  error or the handle of the accepted connection. In \<open>a[numClient], err = l.Accept()\<close>
  the call comes first, then the store into the array with its bounds check, then the
  test of \<open>err\<close>. The counter is Go's \<open>int\<close>; it stays far below the 64-bit range, so it
  is an integer here.
\<close>

function handleStream_loop :: "hs \<Rightarrow> (error + nat) list \<Rightarrow> hs \<times> loop_end" where
  "handleStream_loop s incoming =
     (if numClient s + 1 = maxClient then handleStream_loop (s\<lparr>numClient := numClient s + 1\<rparr>) incoming
      else
        (case incoming of
           [] \<Rightarrow> (s\<lparr>numClient := numClient s + 1\<rparr>, AcceptBlocked)
         | r # rest \<Rightarrow>
             (let i = numClient s + 1 in
              if i < 0 \<or> int (length (conn_array s)) \<le> i
              then (s\<lparr>numClient := i\<rparr>, IndexOutOfRange)
              else
                (case r of
                   Inl err \<Rightarrow>
                     (s\<lparr>numClient := i, conn_array := (conn_array s)[nat i := None]\<rparr>,
                      Fatalf (error_msg err))
                 | Inr b \<Rightarrow>
                     (let s = s\<lparr>numClient := i, conn_array := (conn_array s)[nat i := Some b]\<rparr> in
                      case mw_ptr s of
                        None \<Rightarrow>
                          (case MultiWriter (objects s) [Conn b] of
                             None \<Rightarrow> (s, NilPointer)
                           | Some (h, m) \<Rightarrow>
                               handleStream_loop
                                 (s\<lparr>mw_ptr := Some m, objects := h,
                                    goroutines := goroutines s @ [CopyOut m, CopyIn b]\<rparr>) rest)
                      | Some m \<Rightarrow>
                          (case multiWriter_Add (objects s) m (Conn b) of
                             None \<Rightarrow> (s, NilPointer)
                           | Some h \<Rightarrow>
                               handleStream_loop
                                 (s\<lparr>objects := h, goroutines := goroutines s @ [CopyIn b]\<rparr>) rest))))))"
  by pat_completeness auto
termination
  by (relation "measure (\<lambda>(s, incoming). 2 * length incoming + (if numClient s + 1 = maxClient then 1 else 0))")
     (auto simp: maxClient_def)

text \<open>
  \<open>handleStream\<close> starts the loop with \<open>numClient = -1\<close>, an array of \<open>maxClient\<close> \<open>nil\<close>
  connections and \<open>mw = nil\<close>. The last component tells whether the deferred
  \<open>l.Close()\<close> ran: it runs when a panic unwinds the function, not when \<open>Fatalf\<close> exits
  the process and not while the loop is blocked.
\<close>

definition handleStream :: "(error + nat) list \<Rightarrow> hs \<times> loop_end \<times> bool" where
  "handleStream incoming =
     (case handleStream_loop
        \<lparr>numClient = - 1, conn_array = replicate (nat maxClient) None, mw_ptr = None,
          objects = [], goroutines = []\<rparr> incoming of
        (s, e) \<Rightarrow> (s, e, e = IndexOutOfRange \<or> e = NilPointer))"

section \<open>Concrete inputs and properties of runs\<close>

subsection \<open>An environment in which every call succeeds\<close>

definition sys_ok :: sys where
  "sys_ok = \<lparr> rlimit_Set = (\<lambda>tr k s h. None), os_Chdir = (\<lambda>tr d. None),
     osexec_LookPath = (\<lambda>tr f. Inr (''/bin/'' @ f)), syscall_Dup3 = (\<lambda>tr a b. None),
     syscall_Close = (\<lambda>tr fd. None), syscall_Setsid = (\<lambda>tr. None),
     syscall_TIOCSCTTY = (\<lambda>tr fd. None), conn_Write = (\<lambda>tr p. None),
     conn_Read = (\<lambda>tr. (1, None)), security_Configure = (\<lambda>tr. None),
     syscall_Exec = (\<lambda>tr a b c. None), signals = [] \<rparr>"

definition nofile :: "64 word \<Rightarrow> POSIXRlimit" where
  "nofile n = \<lparr> Type = ''RLIMIT_NOFILE'', Hard = n, Soft = n \<rparr>"

text \<open>
  The configuration of the scenario "cwd \<open>/\<close>, args \<open>["true"]\<close>, no limits, no terminal".
\<close>

definition cfg_true :: EngineConfig where
  "cfg_true = \<lparr> Cwd = ''/'', Args = [''true''], Env = [], Rlimits = [], EmptyProcess = False,
     MasterPts = - 1, SlavePts = - 1, OciHooks = None, ContainerID = ''c1'' \<rparr>"

subsection \<open>Classes of events\<close>

fun is_Exec :: "event \<Rightarrow> bool" where
  "is_Exec (Exec a0 a e r) = True"
| "is_Exec ev = False"

fun is_Configure :: "event \<Rightarrow> bool" where
  "is_Configure (SecurityConfigure r) = True"
| "is_Configure ev = False"

text \<open>A failed write or read on the handshake connection.\<close>

fun hs_failed :: "event \<Rightarrow> bool" where
  "hs_failed (ConnWrite p (Some e)) = True"
| "hs_failed (ConnRead n (Some e)) = True"
| "hs_failed ev = False"

text \<open>The events of the configuration steps that precede the handshake.\<close>

fun cfg_event :: "event \<Rightarrow> bool" where
  "cfg_event (Chdir d r) = True"
| "cfg_event (RlimitSet k s h r) = True"
| "cfg_event (Setenv k v) = True"
| "cfg_event (LookPath f r) = True"
| "cfg_event (Dup3 a b r) = True"
| "cfg_event (Close fd r) = True"
| "cfg_event (Setsid r) = True"
| "cfg_event (SetCtty fd r) = True"
| "cfg_event ev = False"

text \<open>
  A controller environment in which every call succeeds and the handshake read reports a
  clean end of stream.
\<close>

definition ctl_ok :: ctl where
  "ctl_ok = \<lparr> exec_Hook = (\<lambda>tr h. None),
     instance_Get = (\<lambda>tr name. (Some \<lparr> Path = ''/run/instances/'' @ name @ ''.json'' \<rparr>, None)),
     unix_CreateSocket = (\<lambda>tr p. None), updateState = (\<lambda>tr s. None),
     masterConn_Write = (\<lambda>tr p. None), masterConn_Read = (\<lambda>tr. (0, Some io_EOF)),
     filepath_Dir = (\<lambda>p. ''/run/instances''), filepath_Join = (\<lambda>d f. d @ ''/'' @ f) \<rparr>"

text \<open>Connections of which number 2 takes one byte of every write; the others take all.\<close>

definition conns_short2 :: conns where
  "conns_short2 lg c p = (if c = 2 then (1, None) else (int (length p), None))"


subsection \<open>Properties of traces\<close>

text \<open>
  Every \<open>exec\<close> in a sequence of events comes directly after a successful write of the
  pause token, a successful read and a successful security configuration.
\<close>

definition exec_guarded :: "event list \<Rightarrow> bool" where
  "exec_guarded sh = (\<forall>q ev post. sh = q @ ev # post \<and> is_Exec ev \<longrightarrow>
     (\<exists>q' n. q = q' @ [ConnWrite token_t None, ConnRead n None, SecurityConfigure None]))"

text \<open>
  A failed handshake call that no \<open>exec\<close> precedes ends the run with an error, and the run
  holds neither a security configuration nor an \<open>exec\<close>.
\<close>

definition failure_aborts :: "event list \<Rightarrow> outcome \<Rightarrow> bool" where
  "failure_aborts sh out = (\<forall>q ev post. sh = q @ ev # post \<and> hs_failed ev \<and> (\<forall>x\<in>set q. \<not> is_Exec x) \<longrightarrow>
     (\<exists>e. out = Return (Some e)) \<and> (\<forall>x\<in>set sh. \<not> is_Exec x \<and> \<not> is_Configure x))"

text \<open>A connection accepted all of \<open>p\<close>: it returned the full count and no error.\<close>

fun accepted :: "byte list \<Rightarrow> wcall \<Rightarrow> bool" where
  "accepted p (Wrote c q n err) = (n = int (length p) \<and> err = None)"

text \<open>
  What one \<open>Write(p)\<close> on a broadcaster with the destinations \<open>cs\<close> did, given the calls
  \<open>calls\<close> it added to the log \<open>lg\<close> and its results \<open>n\<close> and \<open>err\<close>: the calls went to the
  destinations in their order, each with \<open>p\<close> and with the answer of the connection; all
  but the last were accepted; and either all were accepted, every destination was
  reached and the result is \<open>(len(p), nil)\<close>, or the last call was not accepted and the
  result is its count with its error, \<open>io.ErrShortWrite\<close> if it had none.
\<close>

definition write_contract ::
  "conns \<Rightarrow> wcall list \<Rightarrow> nat list \<Rightarrow> byte list \<Rightarrow> wcall list \<Rightarrow> int \<Rightarrow> error option \<Rightarrow> bool" where
  "write_contract R lg cs p calls n err =
     (length calls \<le> length cs \<and>
      (\<forall>i<length calls.
         calls ! i = (case R (lg @ take i calls) (cs ! i) p of (m, e) \<Rightarrow> Wrote (cs ! i) p m e)) \<and>
      (\<forall>c\<in>set (butlast calls). accepted p c) \<and>
      (if (\<forall>c\<in>set calls. accepted p c)
       then length calls = length cs \<and> n = int (length p) \<and> err = None
       else (\<exists>c q m e. last calls = Wrote c q m e \<and> n = m \<and>
               err = Some (case e of Some x \<Rightarrow> x | None \<Rightarrow> io_ErrShortWrite))))"




section \<open>Verification\<close>

text \<open>
  The lemmas and theorems are stated for every environment. Closed instances use the
  environments \<open>sys_ok\<close> and \<open>ctl_ok\<close>, where every call succeeds, and variations of them.
\<close>

subsection \<open>setRlimit\<close>

lemma setRlimit_loop_ok:
  assumes "all_set_ok os tr pre" and "distinct (map Type pre)"
    and "set (map Type pre) \<inter> set res = {}"
  shows "setRlimit_loop os (pre @ rest) res tr =
         setRlimit_loop os rest (res @ map Type pre) (tr @ map applied pre)"
  using assms
proof (induction pre arbitrary: res tr)
  case Nil
  then show ?case by simp
next
  case (Cons rl pre)
  have h0: "rlimit_Set os tr (Type rl) (Soft rl) (Hard rl) = None"
    and ok: "all_set_ok os (tr @ [applied rl]) pre"
    using Cons.prems(1) by simp_all
  have nf: "find (\<lambda>t. t = Type rl) res = None"
    using Cons.prems(3) by (auto simp: find_None_iff)
  have d: "distinct (map Type pre)" using Cons.prems(2) by simp
  have dj: "set (map Type pre) \<inter> set (res @ [Type rl]) = {}"
    using Cons.prems(2,3) by auto
  show ?case
    using Cons.IH[OF ok d dj] h0 nf by (simp add: applied_def)
qed

lemma all_set_ok_append:
  "all_set_ok os tr (xs @ ys) = (all_set_ok os tr xs \<and> all_set_ok os (tr @ map applied xs) ys)"
  by (induction xs arbitrary: tr) auto

lemma find_eq_member: "x \<in> set xs \<Longrightarrow> find (\<lambda>t. t = x) xs = Some x"
  by (induction xs) auto

lemma first_failing_set:
  assumes "\<not> all_set_ok os tr xs"
  shows "\<exists>k e. k < length xs \<and> all_set_ok os tr (take k xs) \<and>
           rlimit_Set os (tr @ map applied (take k xs)) (Type (xs ! k)) (Soft (xs ! k)) (Hard (xs ! k)) = Some e"
  using assms
proof (induction xs arbitrary: tr)
  case Nil
  then show ?case by simp
next
  case (Cons x xs)
  show ?case
  proof (cases "rlimit_Set os tr (Type x) (Soft x) (Hard x)")
    case (Some e)
    then have "0 < length (x # xs) \<and> all_set_ok os tr (take 0 (x # xs)) \<and>
        rlimit_Set os (tr @ map applied (take 0 (x # xs))) (Type ((x # xs) ! 0)) (Soft ((x # xs) ! 0))
          (Hard ((x # xs) ! 0)) = Some e"
      by simp
    then show ?thesis by blast
  next
    case None
    with Cons.prems have "\<not> all_set_ok os (tr @ [applied x]) xs" by simp
    from Cons.IH[OF this] obtain k e where k: "k < length xs"
      "all_set_ok os (tr @ [applied x]) (take k xs)"
      "rlimit_Set os ((tr @ [applied x]) @ map applied (take k xs)) (Type (xs ! k)) (Soft (xs ! k))
         (Hard (xs ! k)) = Some e"
      by blast
    then have "Suc k < length (x # xs) \<and> all_set_ok os tr (take (Suc k) (x # xs)) \<and>
        rlimit_Set os (tr @ map applied (take (Suc k) (x # xs))) (Type ((x # xs) ! Suc k))
          (Soft ((x # xs) ! Suc k)) (Hard ((x # xs) ! Suc k)) = Some e"
      using None by simp
    then show ?thesis by blast
  qed
qed

text \<open>
  Every list with a repeated kind splits at its first repetition: the kinds before it are
  pairwise distinct and the repeated entry's kind is among them.
\<close>

lemma first_duplicate_split:
  assumes "\<not> distinct (map Type rls)"
  shows "\<exists>pre d post. rls = pre @ d # post \<and> distinct (map Type pre) \<and> Type d \<in> set (map Type pre)"
proof -
  obtain xs y ys where y: "y \<in> set xs" and dx: "distinct xs" and eq: "map Type rls = xs @ y # ys"
    using assms unfolding not_distinct_conv_prefix by blast
  let ?k = "length xs"
  have "length (map Type rls) = length (xs @ y # ys)" using eq by simp
  then have k: "?k < length rls" by simp
  have split: "rls = take ?k rls @ rls ! ?k # drop (Suc ?k) rls"
    using k by (rule id_take_nth_drop)
  have "map Type (take ?k rls) = take ?k (map Type rls)" by (simp add: take_map)
  also have "\<dots> = xs" unfolding eq by simp
  finally have pre: "map Type (take ?k rls) = xs" .
  have "Type (rls ! ?k) = map Type rls ! ?k" using k by simp
  also have "\<dots> = y" unfolding eq by simp
  finally have d: "Type (rls ! ?k) = y" .
  have "rls = take ?k rls @ rls ! ?k # drop (Suc ?k) rls \<and> distinct (map Type (take ?k rls)) \<and>
        Type (rls ! ?k) \<in> set (map Type (take ?k rls))"
    using split y dx unfolding pre d by (intro conjI)
  then show ?thesis by (intro exI)
qed

text \<open>
  C7 (amended). A list with a repeated kind is \<open>pre @ d # post\<close> with \<open>d\<close> its first
  repetition. When every limit-set call up to and including the one for \<open>d\<close> succeeds,
  \<open>setRlimit\<close> fails at \<open>d\<close> with the error \<open>"<kind> was already set"\<close>; the limits of
  \<open>pre\<close> and of \<open>d\<close> itself have been set and stay set, and no entry of \<open>post\<close> is touched.
  Otherwise one of these calls fails, and \<open>setRlimit\<close> returns the error of the first
  failing call, with the limits before it set and nothing after it touched.
\<close>

theorem setRlimit_duplicate:
  assumes "distinct (map Type pre)" and "Type d \<in> set (map Type pre)"
  shows "(all_set_ok os tr (pre @ [d]) \<longrightarrow>
            setRlimit os (pre @ d # post) tr =
              (tr @ map applied (pre @ [d]), Some (Error (Type d @ '' was already set'')))) \<and>
         (\<not> all_set_ok os tr (pre @ [d]) \<longrightarrow>
            (\<exists>k e. k \<le> length pre \<and>
               setRlimit os (pre @ d # post) tr =
                 (tr @ map applied (take k (pre @ [d])) @
                    [RlimitSet (Type ((pre @ [d]) ! k)) (Soft ((pre @ [d]) ! k)) (Hard ((pre @ [d]) ! k)) (Some e)],
                  Some e)))"
proof (intro conjI impI)
  assume all: "all_set_ok os tr (pre @ [d])"
  have ok: "all_set_ok os tr pre"
    and okd: "rlimit_Set os (tr @ map applied pre) (Type d) (Soft d) (Hard d) = None"
    using all by (simp_all add: all_set_ok_append)
  have "setRlimit_loop os (pre @ d # post) [] tr =
        setRlimit_loop os (d # post) ([] @ map Type pre) (tr @ map applied pre)"
    using setRlimit_loop_ok[OF ok assms(1)] by simp
  also have "\<dots> = (tr @ map applied (pre @ [d]), Some (Error (Type d @ '' was already set'')))"
    using okd find_eq_member[OF assms(2)] by (simp add: applied_def)
  finally show "setRlimit os (pre @ d # post) tr =
      (tr @ map applied (pre @ [d]), Some (Error (Type d @ '' was already set'')))"
    by (simp add: setRlimit_def)
next
  assume "\<not> all_set_ok os tr (pre @ [d])"
  let ?xs = "pre @ [d]"
  from first_failing_set[OF \<open>\<not> all_set_ok os tr ?xs\<close>] obtain k e where
    k: "k < length ?xs" and okk: "all_set_ok os tr (take k ?xs)"
    and fl: "rlimit_Set os (tr @ map applied (take k ?xs)) (Type (?xs ! k)) (Soft (?xs ! k)) (Hard (?xs ! k)) = Some e"
    by blast
  have kle: "k \<le> length pre" using k by simp
  have tk: "take k ?xs = take k pre" using kle by simp
  have dk: "distinct (map Type (take k ?xs))"
    unfolding tk using assms(1) by (simp add: take_map[symmetric] distinct_take)
  have "pre @ d # post = ?xs @ post" by simp
  also have "\<dots> = (take k ?xs @ ?xs ! k # drop (Suc k) ?xs) @ post"
    using id_take_nth_drop[OF k] by simp
  finally have split: "pre @ d # post = take k ?xs @ (?xs ! k # drop (Suc k) ?xs @ post)" by simp
  have "setRlimit_loop os (pre @ d # post) [] tr =
        setRlimit_loop os (?xs ! k # drop (Suc k) ?xs @ post) ([] @ map Type (take k ?xs))
          (tr @ map applied (take k ?xs))"
    unfolding split using setRlimit_loop_ok[OF okk dk] by simp
  also have "\<dots> = (tr @ map applied (take k ?xs) @
      [RlimitSet (Type (?xs ! k)) (Soft (?xs ! k)) (Hard (?xs ! k)) (Some e)], Some e)"
    using fl by (simp add: Let_def)
  finally have "k \<le> length pre \<and> setRlimit os (pre @ d # post) tr =
      (tr @ map applied (take k ?xs) @
         [RlimitSet (Type (?xs ! k)) (Soft (?xs ! k)) (Hard (?xs ! k)) (Some e)], Some e)"
    using kle by (simp add: setRlimit_def)
  then show "\<exists>k e. k \<le> length pre \<and>
               setRlimit os (pre @ d # post) tr =
                 (tr @ map applied (take k (pre @ [d])) @
                    [RlimitSet (Type ((pre @ [d]) ! k)) (Soft ((pre @ [d]) ! k)) (Hard ((pre @ [d]) ! k)) (Some e)],
                  Some e)"
    by blast
qed

theorem setRlimit_duplicate_witness:
  "setRlimit sys_ok [nofile 1024, nofile 2048, nofile 4096] [] =
     ([RlimitSet ''RLIMIT_NOFILE'' 1024 1024 None, RlimitSet ''RLIMIT_NOFILE'' 2048 2048 None],
      Some (Error ''RLIMIT_NOFILE was already set''))"
  using setRlimit_duplicate[of "[nofile 1024]" "nofile 2048" sys_ok "[]" "[nofile 4096]", THEN conjunct1]
  by (simp add: sys_ok_def nofile_def applied_def)

text \<open>
  The claim as stated fails when a limit-set call fails first: the error returned is the
  call's own and names no kind, although the list holds a repeated kind.
\<close>

theorem setRlimit_duplicate_counterexample:
  "\<not> distinct (map Type [nofile 1024, nofile 2048]) \<and>
   setRlimit (sys_ok\<lparr>rlimit_Set := \<lambda>tr k s h. Some (Error ''operation not permitted'')\<rparr>)
     [nofile 1024, nofile 2048] [] =
     ([RlimitSet ''RLIMIT_NOFILE'' 1024 1024 (Some (Error ''operation not permitted''))],
      Some (Error ''operation not permitted''))"
  by (simp add: setRlimit_def sys_ok_def nofile_def Let_def)

subsection \<open>The trace of the child runner\<close>

lemmas calls = call_Chdir_def call_LookPath_def call_Dup3_def call_Close_def call_Setsid_def
  call_TIOCSCTTY_def call_Write_def call_Read_def call_Configure_def call_Exec_def Let_def

lemma setRlimit_loop_trace:
  "\<exists>evs. fst (setRlimit_loop os rls res tr) = tr @ evs \<and> (\<forall>ev\<in>set evs. cfg_event ev)"
proof (induction rls arbitrary: res tr)
  case Nil
  then show ?case by simp
next
  case (Cons rl rls)
  obtain evs where evs: "fst (setRlimit_loop os rls (res @ [Type rl])
        (tr @ [RlimitSet (Type rl) (Soft rl) (Hard rl) None])) =
      (tr @ [RlimitSet (Type rl) (Soft rl) (Hard rl) None]) @ evs" "\<forall>ev\<in>set evs. cfg_event ev"
    using Cons.IH by blast
  show ?case
  proof (cases "rlimit_Set os tr (Type rl) (Soft rl) (Hard rl)")
    case (Some e)
    then show ?thesis by (simp add: Let_def)
  next
    case None
    show ?thesis
    proof (cases "find (\<lambda>t. t = Type rl) res")
      case (Some t)
      with None show ?thesis by (simp add: Let_def)
    next
      case nf: None
      have "fst (setRlimit_loop os (rl # rls) res tr) =
            tr @ (RlimitSet (Type rl) (Soft rl) (Hard rl) None # evs)"
        using None nf evs(1) by (simp add: Let_def)
      moreover have "\<forall>ev\<in>set (RlimitSet (Type rl) (Soft rl) (Hard rl) None # evs). cfg_event ev"
        using evs(2) by simp
      ultimately show ?thesis by blast
    qed
  qed
qed

lemma setRlimit_trace:
  "\<exists>evs. fst (setRlimit os rls tr) = tr @ evs \<and> (\<forall>ev\<in>set evs. cfg_event ev)"
  unfolding setRlimit_def by (rule setRlimit_loop_trace)

lemma setenv_PATH_trace:
  "\<exists>evs. setenv_PATH es tr = tr @ evs \<and> (\<forall>ev\<in>set evs. cfg_event ev)"
proof (induction es arbitrary: tr)
  case Nil
  then show ?case by simp
next
  case (Cons e es)
  show ?case
  proof (cases "HasPrefix e ''PATH=''")
    case True
    obtain evs where "setenv_PATH es (tr @ [Setenv ''PATH'' (drop 5 e)]) =
        (tr @ [Setenv ''PATH'' (drop 5 e)]) @ evs" "\<forall>ev\<in>set evs. cfg_event ev"
      using Cons.IH by blast
    then have "setenv_PATH (e # es) tr = tr @ (Setenv ''PATH'' (drop 5 e) # evs) \<and>
               (\<forall>ev\<in>set (Setenv ''PATH'' (drop 5 e) # evs). cfg_event ev)"
      using True by simp
    then show ?thesis by blast
  next
    case False
    then show ?thesis using Cons.IH[of tr] by simp
  qed
qed

lemma setup_pty_trace:
  "\<exists>evs. fst (setup_pty os cfg tr) = tr @ evs \<and> (\<forall>ev\<in>set evs. cfg_event ev)"
  by (simp add: setup_pty_def calls split: option.split)


lemma handshake_exec_cases:
  obtains
    (write_failed) e where
      "handshake_exec os a0 a envv tr =
         (tr @ [ConnWrite token_t (Some e)],
          Return (Some (Error (''failed to pause process: '' @ error_msg e))))"
  | (read_failed) n e where
      "handshake_exec os a0 a envv tr =
         (tr @ [ConnWrite token_t None, ConnRead n (Some e)],
          Return (Some (Error (''failed to receive ack from Smaster: '' @ error_msg e))))"
  | (configure_failed) n e where
      "handshake_exec os a0 a envv tr =
         (tr @ [ConnWrite token_t None, ConnRead n None, SecurityConfigure (Some e)],
          Return (Some (Error (''failed to apply security configuration: '' @ error_msg e))))"
  | (replaced) n where
      "handshake_exec os a0 a envv tr =
         (tr @ [ConnWrite token_t None, ConnRead n None, SecurityConfigure None,
                Exec a0 a envv None], Replaced)"
  | (exec_failed) n e w where
      "handshake_exec os a0 a envv tr =
         (tr @ [ConnWrite token_t None, ConnRead n None, SecurityConfigure None,
                Exec a0 a envv (Some e), ConnWrite token_t w] @
               (case w of Some e' \<Rightarrow> [LogError (''fail to send data to Smaster: '' @ error_msg e')]
                | None \<Rightarrow> []),
          Return (Some (Error (''exec '' @ a0 @ '' failed: '' @ error_msg e))))"
proof -
  let ?t1 = "tr @ [ConnWrite token_t None]"
  show thesis
  proof (cases "conn_Write os tr token_t")
    case (Some e)
    then show thesis
      by (intro write_failed[of e]) (simp add: handshake_exec_def calls)
  next
    case w: None
    obtain n r where rd: "conn_Read os ?t1 = (n, r)" by (cases "conn_Read os ?t1")
    let ?t2 = "?t1 @ [ConnRead n None]"
    show thesis
    proof (cases r)
      case (Some e)
      then show thesis
        using w rd by (intro read_failed[of n e]) (simp add: handshake_exec_def calls)
    next
      case r: None
      show thesis
      proof (cases "security_Configure os ?t2")
        case (Some e)
        then show thesis
          using w rd r
          by (intro configure_failed[of n e])
             (simp add: handshake_exec_def calls)
      next
        case c: None
        let ?t3 = "?t2 @ [SecurityConfigure None]"
        show thesis
        proof (cases "syscall_Exec os ?t3 a0 a envv")
          case None
          then show thesis
            using w rd r c
            by (intro replaced[of n])
               (simp add: handshake_exec_def calls)
        next
          case (Some e)
          then show thesis
            using w rd r c
            by (intro exec_failed[of n e "conn_Write os (?t3 @ [Exec a0 a envv (Some e)]) token_t"])
               (simp add: handshake_exec_def calls split: option.split)
        qed
      qed
    qed
  qed
qed


lemma StartProcess_normal_cases [consumes 1, case_names early handshake]:
  assumes ne: "\<not> EmptyProcess cfg"
  obtains
    (early) evs out where
      "StartProcess os cfg tr = (tr @ evs, out)" "\<forall>ev\<in>set evs. cfg_event ev"
      "out = Panic ''index out of range'' \<or> (\<exists>e. out = Return (Some e))"
      "IsAbs (if Cwd cfg = [] then ''/'' else Cwd cfg) \<longrightarrow>
         (\<exists>evs'. evs = Chdir (if Cwd cfg = [] then ''/'' else Cwd cfg)
            (os_Chdir os tr (if Cwd cfg = [] then ''/'' else Cwd cfg)) # evs')"
  | (handshake) evs a0 a where
      "\<forall>ev\<in>set evs. cfg_event ev"
      "StartProcess os cfg tr = handshake_exec os a0 a (Env cfg) (tr @ evs)"
      "\<exists>evs'. evs = Chdir (if Cwd cfg = [] then ''/'' else Cwd cfg)
            (os_Chdir os tr (if Cwd cfg = [] then ''/'' else Cwd cfg)) # evs'"
proof -
  define cwd where "cwd = (if Cwd cfg = [] then ''/'' else Cwd cfg)"
  show thesis
  proof (cases "IsAbs cwd")
    case False
    then have "StartProcess os cfg tr =
        (tr @ [], Return (Some (Error ''cwd property must be an absolute path'')))"
      by (simp add: StartProcess_def cwd_def[symmetric])
    then show thesis by (rule early) (use False in \<open>auto simp: cwd_def\<close>)
  next
    case abs: True
    show thesis
    proof (cases "os_Chdir os tr cwd")
      case (Some e)
      with abs have "StartProcess os cfg tr = (tr @ [Chdir cwd (Some e)],
          Return (Some (Error (''can't enter in current working directory: '' @ error_msg e))))"
        by (simp add: StartProcess_def cwd_def[symmetric] calls)
      then show thesis by (rule early) (use Some in \<open>auto simp: cwd_def\<close>)
    next
      case cd: None
      define t1 where "t1 = tr @ [Chdir cwd None]"
      obtain evs2 where evs2: "fst (setRlimit os (Rlimits cfg) t1) = t1 @ evs2"
          "\<forall>ev\<in>set evs2. cfg_event ev"
        using setRlimit_trace by blast
      show thesis
      proof (cases "snd (setRlimit os (Rlimits cfg) t1)")
        case (Some e)
        with abs cd evs2(1) have "StartProcess os cfg tr = (tr @ (Chdir cwd None # evs2), Return (Some e))"
          by (simp add: StartProcess_def cwd_def[symmetric] calls t1_def split_beta)
        then show thesis by (rule early) (use evs2(2) cd in \<open>auto simp: cwd_def\<close>)
      next
        case rl: None
        obtain evs3 where evs3: "setenv_PATH (Env cfg) (t1 @ evs2) = (t1 @ evs2) @ evs3"
            "\<forall>ev\<in>set evs3. cfg_event ev"
          using setenv_PATH_trace by blast
        define t3 where "t3 = tr @ (Chdir cwd None # evs2 @ evs3)"
        have t3: "setenv_PATH (Env cfg) (fst (setRlimit os (Rlimits cfg) (tr @ [Chdir cwd None]))) = t3"
          using evs2(1) evs3(1) by (simp add: t1_def t3_def)
        have c3: "\<forall>ev\<in>set (Chdir cwd None # evs2 @ evs3). cfg_event ev"
          using evs2(2) evs3(2) by auto
        have rl': "snd (setRlimit os (Rlimits cfg) (tr @ [Chdir cwd None])) = None"
          using rl by (simp add: t1_def)
        show thesis
        proof (cases "Args cfg")
          case Nil
          with abs cd rl' ne t3 have "StartProcess os cfg tr = (t3, Panic ''index out of range'')"
            by (simp add: StartProcess_def cwd_def[symmetric] calls split_beta)
          then show thesis unfolding t3_def by (rule early) (use c3 cd in \<open>auto simp: cwd_def\<close>)
        next
          case (Cons arg0 rest)
          show thesis
          proof (cases "osexec_LookPath os t3 arg0")
            case (Inl e)
            with abs cd rl' ne t3 Cons have "StartProcess os cfg tr =
                (tr @ ((Chdir cwd None # evs2 @ evs3) @ [LookPath arg0 (Inl e)]),
                 Return (Some (Error (error_msg e))))"
              by (simp add: StartProcess_def cwd_def[symmetric] calls split_beta t3_def)
            then show thesis by (rule early) (use c3 cd in \<open>auto simp: cwd_def\<close>)
          next
            case (Inr bpath)
            define t4 where "t4 = t3 @ [LookPath arg0 (Inr bpath)]"
            show thesis
            proof (cases "MasterPts cfg = - 1")
              case True
              with abs cd rl' ne t3 Cons Inr have "StartProcess os cfg tr =
                  handshake_exec os bpath (bpath # rest) (Env cfg)
                    (tr @ ((Chdir cwd None # evs2 @ evs3) @ [LookPath arg0 (Inr bpath)]))"
                by (simp add: StartProcess_def cwd_def[symmetric] calls split_beta t3_def)
              with c3 cd show thesis by (intro handshake) (auto simp: cwd_def)
            next
              case pty: False
              obtain evs5 where evs5: "fst (setup_pty os cfg t4) = t4 @ evs5"
                  "\<forall>ev\<in>set evs5. cfg_event ev"
                using setup_pty_trace by blast
              have c5: "\<forall>ev\<in>set ((Chdir cwd None # evs2 @ evs3) @ LookPath arg0 (Inr bpath) # evs5).
                  cfg_event ev"
                using c3 evs5(2) by auto
              have t5: "fst (setup_pty os cfg (t3 @ [LookPath arg0 (Inr bpath)])) =
                  tr @ ((Chdir cwd None # evs2 @ evs3) @ LookPath arg0 (Inr bpath) # evs5)"
                using evs5(1) by (simp add: t4_def t3_def)
              show thesis
              proof (cases "snd (setup_pty os cfg (t3 @ [LookPath arg0 (Inr bpath)]))")
                case (Some e)
                with abs cd rl' ne t3 Cons Inr pty t5 have "StartProcess os cfg tr =
                    (tr @ ((Chdir cwd None # evs2 @ evs3) @ LookPath arg0 (Inr bpath) # evs5),
                     Return (Some e))"
                  by (simp add: StartProcess_def cwd_def[symmetric] calls split_beta)
                then show thesis by (rule early) (use c5 cd in \<open>auto simp: cwd_def\<close>)
              next
                case None
                with abs cd rl' ne t3 Cons Inr pty t5 have "StartProcess os cfg tr =
                    handshake_exec os bpath (bpath # rest) (Env cfg)
                      (tr @ ((Chdir cwd None # evs2 @ evs3) @ LookPath arg0 (Inr bpath) # evs5))"
                  by (simp add: StartProcess_def cwd_def[symmetric] calls split_beta)
                with c5 cd show thesis by (intro handshake) (auto simp: cwd_def)
              qed
            qed
          qed
        qed
      qed
    qed
  qed
qed

lemma reap_trace: "\<exists>evs. reap pids tr = tr @ evs"
  proof (induction pids arbitrary: tr)
  case Nil
  then show ?case by simp
next
  case (Cons pid pids)
  obtain evs where "reap pids (tr @ [Wait4 pid]) = (tr @ [Wait4 pid]) @ evs"
    using Cons.IH by blast
  then show ?case by simp
qed

lemma signal_loop_trace: "\<exists>evs. fst (signal_loop sigs tr) = tr @ evs"
proof (induction sigs arbitrary: tr)
  case Nil
  then show ?case by simp
next
  case (Cons sp sigs)
  obtain s pids where sp: "sp = (s, pids)" by (cases sp)
  show ?case
  proof (cases s)
    case SIGCHLD
    obtain e1 where e1: "reap pids (tr @ [Received s]) = (tr @ [Received s]) @ e1"
      using reap_trace by blast
    obtain e2 where "fst (signal_loop sigs ((tr @ [Received s]) @ e1)) = ((tr @ [Received s]) @ e1) @ e2"
      using Cons.IH by blast
    with e1 sp SIGCHLD show ?thesis by simp
  next
    case SIGINT
    with sp show ?thesis by simp
  next
    case SIGTERM
    with sp show ?thesis by simp
  qed
qed

lemma emptyProcess_trace: "\<exists>evs. fst (emptyProcess os tr) = tr @ evs"
proof -
  have "\<exists>evs. fst (signal_loop (signals os) (tr @ t)) = tr @ evs" for t
    using signal_loop_trace[of "signals os" "tr @ t"] by auto
  then show ?thesis
    by (auto simp: emptyProcess_def calls split_beta split: option.split)
qed

lemma handshake_exec_trace: "\<exists>evs. fst (handshake_exec os a0 a envv tr) = tr @ evs"
  by (cases rule: handshake_exec_cases[of os a0 a envv tr]) auto

lemma StartProcess_chdir_first:
  assumes abs: "IsAbs (if Cwd cfg = [] then ''/'' else Cwd cfg)"
  shows "\<exists>rest. fst (StartProcess os cfg tr) =
           tr @ Chdir (if Cwd cfg = [] then ''/'' else Cwd cfg)
                  (os_Chdir os tr (if Cwd cfg = [] then ''/'' else Cwd cfg)) # rest"
proof (cases "EmptyProcess cfg")
  case False
  then show ?thesis
  proof (cases rule: StartProcess_normal_cases[where os = os and tr = tr])
    case (early evs out)
    with abs show ?thesis by auto
  next
    case (handshake evs a0 a)
    obtain e2 where "fst (handshake_exec os a0 a (Env cfg) (tr @ evs)) = (tr @ evs) @ e2"
      using handshake_exec_trace by blast
    with handshake show ?thesis by auto
  qed
next
  case True
  define cwd where "cwd = (if Cwd cfg = [] then ''/'' else Cwd cfg)"
  have abs': "IsAbs cwd" using abs by (simp add: cwd_def)
  show ?thesis
  proof (cases "os_Chdir os tr cwd")
    case (Some e)
    with abs' show ?thesis
      by (simp add: StartProcess_def cwd_def[symmetric] calls)
  next
    case cd: None
    obtain evs2 where evs2: "fst (setRlimit os (Rlimits cfg) (tr @ [Chdir cwd None])) =
        (tr @ [Chdir cwd None]) @ evs2"
      using setRlimit_trace by blast
    show ?thesis
    proof (cases "snd (setRlimit os (Rlimits cfg) (tr @ [Chdir cwd None]))")
      case (Some e)
      with abs' cd evs2 show ?thesis
        by (simp add: StartProcess_def cwd_def[symmetric] calls split_beta)
    next
      case None
      obtain evs3 where "fst (emptyProcess os ((tr @ [Chdir cwd None]) @ evs2)) =
          ((tr @ [Chdir cwd None]) @ evs2) @ evs3"
        using emptyProcess_trace by blast
      with None abs' cd evs2 True show ?thesis
        by (simp add: StartProcess_def cwd_def[symmetric] calls split_beta)
    qed
  qed
qed

subsection \<open>The handshake of the child runner\<close>

lemma is_Exec_not_cfg: "is_Exec ev \<Longrightarrow> \<not> cfg_event ev"
  by (cases ev) auto

lemma hs_failed_not_cfg: "hs_failed ev \<Longrightarrow> \<not> cfg_event ev"
  by (cases ev) auto

lemma is_Configure_not_cfg: "is_Configure ev \<Longrightarrow> \<not> cfg_event ev"
  by (cases ev) auto

lemma cfg_prefix_split:
  assumes "\<forall>x\<in>set t0. cfg_event x" and "t0 @ evs = pre @ ev # post" and "\<not> cfg_event ev"
  shows "\<exists>q. pre = t0 @ q \<and> evs = q @ ev # post"
  using assms
proof (induction t0 arbitrary: pre)
  case Nil
  then show ?case by simp
next
  case (Cons x t0)
  show ?case
  proof (cases pre)
    case Nil
    with Cons.prems show ?thesis by auto
  next
    case (Cons y pre')
    with Cons.prems Cons.IH[of pre'] show ?thesis by auto
  qed
qed

lemma exec_guarded_shapes:
  "exec_guarded []"
  "exec_guarded [ConnWrite token_t (Some e)]"
  "exec_guarded [ConnWrite token_t None, ConnRead n (Some e)]"
  "exec_guarded [ConnWrite token_t None, ConnRead n None, SecurityConfigure (Some e)]"
  "exec_guarded [ConnWrite token_t None, ConnRead n None, SecurityConfigure None, Exec a0 a envv None]"
  "exec_guarded [ConnWrite token_t None, ConnRead n None, SecurityConfigure None,
     Exec a0 a envv (Some e), ConnWrite token_t w]"
  "exec_guarded [ConnWrite token_t None, ConnRead n None, SecurityConfigure None,
     Exec a0 a envv (Some e), ConnWrite token_t w, LogError m]"
  by (auto simp: exec_guarded_def Cons_eq_append_conv)

lemma failure_aborts_shapes:
  "failure_aborts [] out"
  "failure_aborts [ConnWrite token_t (Some e)] (Return (Some e1))"
  "failure_aborts [ConnWrite token_t None, ConnRead n (Some e)] (Return (Some e1))"
  "failure_aborts [ConnWrite token_t None, ConnRead n None, SecurityConfigure (Some e)] out"
  "failure_aborts [ConnWrite token_t None, ConnRead n None, SecurityConfigure None, Exec a0 a envv None] out"
  "failure_aborts [ConnWrite token_t None, ConnRead n None, SecurityConfigure None,
     Exec a0 a envv (Some e), ConnWrite token_t w] out"
  "failure_aborts [ConnWrite token_t None, ConnRead n None, SecurityConfigure None,
     Exec a0 a envv (Some e), ConnWrite token_t w, LogError m] out"
  by (auto simp: failure_aborts_def Cons_eq_append_conv)

lemma exec_guarded_cfg_prefix:
  assumes "\<forall>x\<in>set t0. cfg_event x" and "exec_guarded sh"
  shows "exec_guarded (t0 @ sh)"
  unfolding exec_guarded_def
proof (intro allI impI, elim conjE)
  fix q ev post
  assume eq: "t0 @ sh = q @ ev # post" and ex: "is_Exec ev"
  obtain q1 where q1: "q = t0 @ q1" "sh = q1 @ ev # post"
    using cfg_prefix_split[OF assms(1) eq is_Exec_not_cfg[OF ex]] by blast
  obtain q' n where "q1 = q' @ [ConnWrite token_t None, ConnRead n None, SecurityConfigure None]"
    using assms(2)[unfolded exec_guarded_def, rule_format, of q1 ev post] q1(2) ex by auto
  with q1(1) have "q = (t0 @ q') @ [ConnWrite token_t None, ConnRead n None, SecurityConfigure None]"
    by simp
  then show "\<exists>q' n. q = q' @ [ConnWrite token_t None, ConnRead n None, SecurityConfigure None]"
    by blast
qed

lemma failure_aborts_cfg_prefix:
  assumes c: "\<forall>x\<in>set t0. cfg_event x" and f: "failure_aborts sh out"
  shows "failure_aborts (t0 @ sh) out"
  unfolding failure_aborts_def
proof (intro allI impI, elim conjE)
  fix q ev post
  assume eq: "t0 @ sh = q @ ev # post" and hf: "hs_failed ev" and nx: "\<forall>x\<in>set q. \<not> is_Exec x"
  obtain q1 where q1: "q = t0 @ q1" "sh = q1 @ ev # post"
    using cfg_prefix_split[OF c eq hs_failed_not_cfg[OF hf]] by blast
  have "\<forall>x\<in>set q1. \<not> is_Exec x" using nx q1(1) by simp
  then have r: "(\<exists>e. out = Return (Some e)) \<and> (\<forall>x\<in>set sh. \<not> is_Exec x \<and> \<not> is_Configure x)"
    using f[unfolded failure_aborts_def, rule_format, of q1 ev post] q1(2) hf by simp
  have "\<forall>x\<in>set t0. \<not> is_Exec x \<and> \<not> is_Configure x"
    using c is_Exec_not_cfg is_Configure_not_cfg by blast
  with r show "(\<exists>e. out = Return (Some e)) \<and> (\<forall>x\<in>set (t0 @ sh). \<not> is_Exec x \<and> \<not> is_Configure x)"
    by auto
qed

lemma handshake_exec_guarded:
  assumes "\<forall>x\<in>set t0. cfg_event x"
  shows "exec_guarded (fst (handshake_exec os a0 a envv t0)) \<and>
         failure_aborts (fst (handshake_exec os a0 a envv t0)) (snd (handshake_exec os a0 a envv t0))"
proof (cases rule: handshake_exec_cases[of os a0 a envv t0])
  case (write_failed e)
  then show ?thesis
    using exec_guarded_cfg_prefix[OF assms exec_guarded_shapes(2)]
      failure_aborts_cfg_prefix[OF assms failure_aborts_shapes(2)] by simp
next
  case (read_failed n e)
  then show ?thesis
    using exec_guarded_cfg_prefix[OF assms exec_guarded_shapes(3)]
      failure_aborts_cfg_prefix[OF assms failure_aborts_shapes(3)] by simp
next
  case (configure_failed n e)
  then show ?thesis
    using exec_guarded_cfg_prefix[OF assms exec_guarded_shapes(4)]
      failure_aborts_cfg_prefix[OF assms failure_aborts_shapes(4)] by simp
next
  case (replaced n)
  then show ?thesis
    using exec_guarded_cfg_prefix[OF assms exec_guarded_shapes(5)]
      failure_aborts_cfg_prefix[OF assms failure_aborts_shapes(5)] by simp
next
  case (exec_failed n e w)
  show ?thesis
  proof (cases w)
    case None
    with exec_failed show ?thesis
      using exec_guarded_cfg_prefix[OF assms exec_guarded_shapes(6)]
        failure_aborts_cfg_prefix[OF assms failure_aborts_shapes(6)] by simp
  next
    case (Some e')
    with exec_failed show ?thesis
      using exec_guarded_cfg_prefix[OF assms exec_guarded_shapes(7)]
        failure_aborts_cfg_prefix[OF assms failure_aborts_shapes(7)] by simp
  qed
qed

lemma StartProcess_guarded:
  assumes "\<not> EmptyProcess cfg"
  shows "exec_guarded (fst (StartProcess os cfg [])) \<and>
         failure_aborts (fst (StartProcess os cfg [])) (snd (StartProcess os cfg []))"
  using assms
proof (cases rule: StartProcess_normal_cases[where os = os and tr = "[]"])
  case (early evs out)
  have "exec_guarded (evs @ [])"
    by (rule exec_guarded_cfg_prefix[OF early(2) exec_guarded_shapes(1)])
  moreover have "failure_aborts (evs @ []) out"
    by (rule failure_aborts_cfg_prefix[OF early(2) failure_aborts_shapes(1)])
  ultimately show ?thesis using early(1) by simp
next
  case (handshake evs a0 a)
  then show ?thesis using handshake_exec_guarded[of evs os a0 a "Env cfg"] by simp
qed

subsection \<open>Claims about StartProcess\<close>

text \<open>
  C2. In normal mode, every \<open>exec\<close> of a run of \<open>StartProcess\<close> comes directly after a
  successful write of the pause token, a successful read of the resume token and a
  successful security configuration, in this order. A failed handshake write or read that
  no \<open>exec\<close> precedes ends the run with an error, and that run holds neither a security
  configuration nor an \<open>exec\<close>.
\<close>

theorem exec_only_after_handshake:
  assumes "\<not> EmptyProcess cfg" and "StartProcess os cfg [] = (tr, out)"
  shows "(\<forall>pre ev post. tr = pre @ ev # post \<and> is_Exec ev \<longrightarrow>
            (\<exists>pre' n. pre = pre' @ [ConnWrite token_t None, ConnRead n None, SecurityConfigure None])) \<and>
         (\<forall>pre ev post. tr = pre @ ev # post \<and> hs_failed ev \<and> (\<forall>x\<in>set pre. \<not> is_Exec x) \<longrightarrow>
            (\<exists>e. out = Return (Some e)) \<and> (\<forall>x\<in>set tr. \<not> is_Exec x \<and> \<not> is_Configure x))"
proof -
  have g: "exec_guarded tr" "failure_aborts tr out"
    using StartProcess_guarded[OF assms(1), of os] assms(2) by simp_all
  show ?thesis
    using g(1)[unfolded exec_guarded_def] g(2)[unfolded failure_aborts_def] by (rule conjI)
qed

theorem exec_only_after_handshake_witness:
  "\<not> EmptyProcess cfg_true \<and>
   StartProcess sys_ok cfg_true [] =
     ([Chdir ''/'' None, LookPath ''true'' (Inr ''/bin/true''),
       ConnWrite token_t None, ConnRead 1 None, SecurityConfigure None,
       Exec ''/bin/true'' [''/bin/true''] [] None], Replaced) \<and>
   (\<exists>pre' n. [Chdir ''/'' None, LookPath ''true'' (Inr ''/bin/true''),
       ConnWrite token_t None, ConnRead 1 None, SecurityConfigure None] =
     pre' @ [ConnWrite token_t None, ConnRead n None, SecurityConfigure None])"
proof -
  have ne: "\<not> EmptyProcess cfg_true"
    by (simp add: cfg_true_def)
  have run: "StartProcess sys_ok cfg_true [] =
     ([Chdir ''/'' None, LookPath ''true'' (Inr ''/bin/true''),
       ConnWrite token_t None, ConnRead 1 None, SecurityConfigure None,
       Exec ''/bin/true'' [''/bin/true''] [] None], Replaced)"
    by (simp add: StartProcess_def cfg_true_def sys_ok_def IsAbs_def setRlimit_def
        handshake_exec_def calls)
  have "\<exists>pre' n. [Chdir ''/'' None, LookPath ''true'' (Inr ''/bin/true''),
       ConnWrite token_t None, ConnRead 1 None, SecurityConfigure None] =
     pre' @ [ConnWrite token_t None, ConnRead n None, SecurityConfigure None]"
    using exec_only_after_handshake[OF ne run, THEN conjunct1, rule_format,
        of "[Chdir ''/'' None, LookPath ''true'' (Inr ''/bin/true''),
       ConnWrite token_t None, ConnRead 1 None, SecurityConfigure None]"
          "Exec ''/bin/true'' [''/bin/true''] [] None" "[]"]
    by simp
  with ne run show ?thesis by simp
qed

text \<open>
  C6. When the security configuration fails, \<open>StartProcess\<close> returns its error at once:
  the only write on the handshake is the pause token, and nothing is written after the
  failure. When \<open>exec\<close> fails, the token is written.
\<close>

theorem security_failure_writes_no_token:
  "StartProcess (sys_ok\<lparr>security_Configure := \<lambda>tr. Some (Error ''permission denied'')\<rparr>) cfg_true [] =
     ([Chdir ''/'' None, LookPath ''true'' (Inr ''/bin/true''), ConnWrite token_t None,
       ConnRead 1 None, SecurityConfigure (Some (Error ''permission denied''))],
      Return (Some (Error ''failed to apply security configuration: permission denied''))) \<and>
   StartProcess (sys_ok\<lparr>syscall_Exec := \<lambda>tr a0 a e. Some (Error ''exec format error'')\<rparr>) cfg_true [] =
     ([Chdir ''/'' None, LookPath ''true'' (Inr ''/bin/true''), ConnWrite token_t None,
       ConnRead 1 None, SecurityConfigure None,
       Exec ''/bin/true'' [''/bin/true''] [] (Some (Error ''exec format error'')),
       ConnWrite token_t None],
      Return (Some (Error ''exec /bin/true failed: exec format error'')))"
  by (simp add: StartProcess_def cfg_true_def sys_ok_def IsAbs_def setRlimit_def
        handshake_exec_def calls)

text \<open>
  C8 (amended). A working directory that is not empty and not absolute makes
  \<open>StartProcess\<close> return the configuration error with the trace unchanged: no directory
  change, no resource limit and no handshake call has been made.
\<close>

theorem StartProcess_relative_cwd:
  assumes "Cwd cfg \<noteq> []" and "\<not> IsAbs (Cwd cfg)"
  shows "StartProcess os cfg tr = (tr, Return (Some (Error ''cwd property must be an absolute path'')))"
  using assms by (simp add: StartProcess_def)

theorem StartProcess_relative_cwd_witness:
  "Cwd (cfg_true\<lparr>Cwd := ''work/dir''\<rparr>) \<noteq> [] \<and> \<not> IsAbs (Cwd (cfg_true\<lparr>Cwd := ''work/dir''\<rparr>)) \<and>
   StartProcess sys_ok (cfg_true\<lparr>Cwd := ''work/dir''\<rparr>) [] =
     ([], Return (Some (Error ''cwd property must be an absolute path'')))"
  using StartProcess_relative_cwd[of "cfg_true\<lparr>Cwd := ''work/dir''\<rparr>" sys_ok "[]"]
  by (simp add: IsAbs_def)

text \<open>
  The empty working directory is not absolute, and \<open>StartProcess\<close> does not fail on it.
\<close>

theorem StartProcess_relative_cwd_counterexample:
  "\<not> IsAbs (Cwd (cfg_true\<lparr>Cwd := ''''\<rparr>)) \<and>
   StartProcess sys_ok (cfg_true\<lparr>Cwd := ''''\<rparr>) [] =
     ([Chdir ''/'' None, LookPath ''true'' (Inr ''/bin/true''), ConnWrite token_t None,
       ConnRead 1 None, SecurityConfigure None, Exec ''/bin/true'' [''/bin/true''] [] None],
      Replaced)"
  by (simp add: StartProcess_def cfg_true_def sys_ok_def IsAbs_def setRlimit_def
        handshake_exec_def calls)

text \<open>
  C9. With the empty working directory \<open>StartProcess\<close> behaves exactly as with \<open>/\<close>: the
  absolute-path check passes and the first step is the change of directory to \<open>/\<close>.
\<close>

theorem StartProcess_empty_cwd:
  "StartProcess os (cfg\<lparr>Cwd := ''''\<rparr>) tr = StartProcess os (cfg\<lparr>Cwd := ''/''\<rparr>) tr \<and>
   (\<exists>rest. fst (StartProcess os (cfg\<lparr>Cwd := ''''\<rparr>) tr) = tr @ Chdir ''/'' (os_Chdir os tr ''/'') # rest)"
proof
  show "StartProcess os (cfg\<lparr>Cwd := ''''\<rparr>) tr = StartProcess os (cfg\<lparr>Cwd := ''/''\<rparr>) tr"
    by (simp add: StartProcess_def setup_pty_def Let_def
        cong: option.case_cong prod.case_cong list.case_cong sum.case_cong if_cong)
  show "\<exists>rest. fst (StartProcess os (cfg\<lparr>Cwd := ''''\<rparr>) tr) = tr @ Chdir ''/'' (os_Chdir os tr ''/'') # rest"
    using StartProcess_chdir_first[of "cfg\<lparr>Cwd := ''''\<rparr>" os tr] by (simp add: IsAbs_def)
qed

subsection \<open>Claims about the controller\<close>

text \<open>
  C1. A data byte on the handshake read (one byte, no error) is not \<open>io.EOF\<close>, so
  \<open>PreStartProcess\<close> returns the error of the read, which is \<open>nil\<close>: it reports success,
  and the caller goes on to \<open>PostStartProcess\<close>, which persists \<open>running\<close>.
\<close>

theorem data_byte_is_not_failure:
  "snd (PreStartProcess (ctl_ok\<lparr>masterConn_Read := \<lambda>tr. (1, None)\<rparr>) cfg_true 42 (Some Map.empty) []) =
     ([Kill 42, InstanceGet ''c1'' (Some \<lparr>Path = ''/run/instances/c1.json''\<rparr>) None,
       CreateSocket ''/run/instances/c1.sock'' None, UpdateState ''created'' None,
       GoHandleStream 0, MasterWrite token_s None, MasterRead 1 None],
      Return None) \<and>
   controller_startup (ctl_ok\<lparr>masterConn_Read := \<lambda>tr. (1, None)\<rparr>) cfg_true 42 (Some Map.empty) =
     ([Kill 42, InstanceGet ''c1'' (Some \<lparr>Path = ''/run/instances/c1.json''\<rparr>) None,
       CreateSocket ''/run/instances/c1.sock'' None, UpdateState ''created'' None,
       GoHandleStream 0, MasterWrite token_s None, MasterRead 1 None,
       UpdateState ''running'' None],
      Return None)"
  by (simp add: controller_startup_def PreStartProcess_def stop_and_hooks_def
      attach_and_release_def PostStartProcess_def ctl_ok_def cfg_true_def Let_def)

text \<open>
  C10. The error of \<open>instance.Get\<close> is never read. Let the stop signal and the pre-start
  hooks pass and the lookup return an error. If it returns a file with the error, the
  socket path is derived from that file and stored under the attach-socket annotation, and
  the next step is the creation of the socket at that path. If it returns no file, the
  dereference \<open>file.Path\<close> panics. In neither case is the error of the lookup examined.
\<close>

theorem Get_error_unchecked:
  assumes "stop_and_hooks c cfg pid tr = (tr1, None)"
    and "instance_Get c tr1 (ContainerID cfg) = (file, Some err)"
    and "sock = (\<lambda>f. filepath_Join c (filepath_Dir c (Path f)) (ContainerID cfg @ ''.sock''))"
  shows "(file = None \<longrightarrow>
            PreStartProcess c cfg pid ann tr =
              (ann, tr1 @ [InstanceGet (ContainerID cfg) None (Some err)],
               Panic ''invalid memory address or nil pointer dereference'')) \<and>
         (\<forall>f m. file = Some f \<and> ann = Some m \<longrightarrow>
            (\<exists>rest out.
               PreStartProcess c cfg pid ann tr =
                 (Some (m(attach_socket_key \<mapsto> sock f)),
                  tr1 @ InstanceGet (ContainerID cfg) (Some f) (Some err) #
                        CreateSocket (sock f)
                          (unix_CreateSocket c (tr1 @ [InstanceGet (ContainerID cfg) (Some f) (Some err)])
                             (sock f)) # rest,
                  out)))"
  using assms
  by (auto simp: PreStartProcess_def attach_and_release_def Let_def split_beta split: option.split)

theorem Get_error_unchecked_witness:
  "PreStartProcess
     (ctl_ok\<lparr>instance_Get := \<lambda>tr name. (Some \<lparr>Path = ''/run/stale/'' @ name\<rparr>, Some (Error ''no instance found''))\<rparr>)
     cfg_true 42 (Some Map.empty) [] =
     (Some [attach_socket_key \<mapsto> ''/run/instances/c1.sock''],
      [Kill 42, InstanceGet ''c1'' (Some \<lparr>Path = ''/run/stale/c1''\<rparr>) (Some (Error ''no instance found'')),
       CreateSocket ''/run/instances/c1.sock'' None, UpdateState ''created'' None,
       GoHandleStream 0, MasterWrite token_s None, MasterRead 0 (Some io_EOF)],
      Return None)"
proof -
  let ?c = "ctl_ok\<lparr>instance_Get := \<lambda>tr name. (Some \<lparr>Path = ''/run/stale/'' @ name\<rparr>, Some (Error ''no instance found''))\<rparr>"
  have h: "stop_and_hooks ?c cfg_true 42 [] = ([Kill 42], None)"
    by (simp add: stop_and_hooks_def cfg_true_def)
  have g: "instance_Get ?c [Kill 42] (ContainerID cfg_true) =
      (Some \<lparr>Path = ''/run/stale/c1''\<rparr>, Some (Error ''no instance found''))"
    by (simp add: cfg_true_def)
  obtain rest out where "PreStartProcess ?c cfg_true 42 (Some Map.empty) [] =
      (Some [attach_socket_key \<mapsto> ''/run/instances/c1.sock''],
       [Kill 42] @ InstanceGet ''c1'' (Some \<lparr>Path = ''/run/stale/c1''\<rparr>) (Some (Error ''no instance found'')) #
         CreateSocket ''/run/instances/c1.sock'' None # rest, out)"
    using Get_error_unchecked[OF h g refl, of "Some Map.empty", THEN conjunct2, rule_format,
        of "\<lparr>Path = ''/run/stale/c1''\<rparr>" Map.empty]
    by (auto simp: ctl_ok_def cfg_true_def)
  then show ?thesis
    by (simp add: PreStartProcess_def stop_and_hooks_def attach_and_release_def ctl_ok_def
        cfg_true_def Let_def)
qed

subsection \<open>The broadcaster\<close>

lemma write_contract_Nil: "write_contract R lg [] p [] (int (length p)) None"
  by (simp add: write_contract_def)

lemma write_contract_fail:
  assumes "R lg c p = (m, e)" and "\<not> (m = int (length p) \<and> e = None)"
  shows "write_contract R lg (c # cs) p [Wrote c p m e] m
           (Some (case e of Some x \<Rightarrow> x | None \<Rightarrow> io_ErrShortWrite))"
  using assms by (auto simp: write_contract_def)

lemma write_contract_step:
  assumes r: "R lg c p = (int (length p), None)"
    and rest: "write_contract R (lg @ [Wrote c p (int (length p)) None]) cs p calls n err"
  shows "write_contract R lg (c # cs) p (Wrote c p (int (length p)) None # calls) n err"
proof -
  let ?w = "Wrote c p (int (length p)) None"
  note all = rest[unfolded write_contract_def]
  have len: "length calls \<le> length cs"
    using all by (rule conjunct1)
  have idx: "\<forall>i<length calls.
         calls ! i = (case R ((lg @ [?w]) @ take i calls) (cs ! i) p of (m, e) \<Rightarrow> Wrote (cs ! i) p m e)"
    using all[THEN conjunct2] by (rule conjunct1)
  have bl: "\<forall>c\<in>set (butlast calls). accepted p c"
    using all[THEN conjunct2, THEN conjunct2] by (rule conjunct1)
  have fin: "if (\<forall>c\<in>set calls. accepted p c)
       then length calls = length cs \<and> n = int (length p) \<and> err = None
       else (\<exists>c q m e. last calls = Wrote c q m e \<and> n = m \<and>
               err = Some (case e of Some x \<Rightarrow> x | None \<Rightarrow> io_ErrShortWrite))"
    using all[THEN conjunct2, THEN conjunct2] by (rule conjunct2)
  have 1: "length (?w # calls) \<le> length (c # cs)" using len by simp
  have 2: "\<forall>i<length (?w # calls).
         (?w # calls) ! i =
         (case R (lg @ take i (?w # calls)) ((c # cs) ! i) p of (m, e) \<Rightarrow> Wrote ((c # cs) ! i) p m e)"
  proof (intro allI impI)
    fix i assume i: "i < length (?w # calls)"
    show "(?w # calls) ! i =
         (case R (lg @ take i (?w # calls)) ((c # cs) ! i) p of (m, e) \<Rightarrow> Wrote ((c # cs) ! i) p m e)"
    proof (cases i)
      case 0
      then show ?thesis using r by simp
    next
      case (Suc j)
      then have "j < length calls" using i by simp
      from idx[rule_format, OF this] Suc show ?thesis by simp
    qed
  qed
  have 3: "\<forall>c\<in>set (butlast (?w # calls)). accepted p c"
    using bl by auto
  have 4: "if (\<forall>c\<in>set (?w # calls). accepted p c)
       then length (?w # calls) = length (c # cs) \<and> n = int (length p) \<and> err = None
       else (\<exists>c q m e. last (?w # calls) = Wrote c q m e \<and> n = m \<and>
               err = Some (case e of Some x \<Rightarrow> x | None \<Rightarrow> io_ErrShortWrite))"
  proof (cases "\<forall>c\<in>set calls. accepted p c")
    case True
    then have yes: "\<forall>c\<in>set (?w # calls). accepted p c" by simp
    from fin have "length calls = length cs \<and> n = int (length p) \<and> err = None"
      unfolding if_P[OF True] .
    then show ?thesis unfolding if_P[OF yes] by simp
  next
    case False
    then have ne: "calls \<noteq> []" by auto
    from False have no: "\<not> (\<forall>c\<in>set (?w # calls). accepted p c)" by simp
    from fin have "\<exists>c q m e. last calls = Wrote c q m e \<and> n = m \<and>
               err = Some (case e of Some x \<Rightarrow> x | None \<Rightarrow> io_ErrShortWrite)"
      unfolding if_not_P[OF False] .
    then show ?thesis unfolding if_not_P[OF no] using ne by simp
  qed
  show ?thesis unfolding write_contract_def using 1 2 3 4 by (intro conjI)
qed

lemma loop_leaf:
  "\<exists>calls n err. multiWriter_Write_loop R h held (map Conn cs) p lg = Ret n err (lg @ calls) \<and>
     write_contract R lg cs p calls n err"
proof (induction cs arbitrary: lg)
  case Nil
  show ?case using write_contract_Nil[of R lg p] by simp
next
  case (Cons c cs)
  obtain m e where r: "R lg c p = (m, e)" by (cases "R lg c p")
  show ?case
  proof (cases "m = int (length p) \<and> e = None")
    case False
    have "multiWriter_Write_loop R h held (map Conn (c # cs)) p lg =
        Ret m (Some (case e of Some x \<Rightarrow> x | None \<Rightarrow> io_ErrShortWrite)) (lg @ [Wrote c p m e])"
      using r False by (cases e) auto
    moreover have "write_contract R lg (c # cs) p [Wrote c p m e] m
           (Some (case e of Some x \<Rightarrow> x | None \<Rightarrow> io_ErrShortWrite))"
      using write_contract_fail[of R lg c p m e cs] r False by simp
    ultimately have "multiWriter_Write_loop R h held (map Conn (c # cs)) p lg =
        Ret m (Some (case e of Some x \<Rightarrow> x | None \<Rightarrow> io_ErrShortWrite)) (lg @ [Wrote c p m e]) \<and>
        write_contract R lg (c # cs) p [Wrote c p m e] m
           (Some (case e of Some x \<Rightarrow> x | None \<Rightarrow> io_ErrShortWrite))"
      by (rule conjI)
    then show ?thesis by (intro exI)
  next
    case True
    let ?w = "Wrote c p (int (length p)) None"
    obtain calls n err where
      l: "multiWriter_Write_loop R h held (map Conn cs) p (lg @ [?w]) = Ret n err ((lg @ [?w]) @ calls)"
      and wc: "write_contract R (lg @ [?w]) cs p calls n err"
      using Cons.IH by blast
    have r': "R lg c p = (int (length p), None)" using r True by simp
    have "multiWriter_Write_loop R h held (map Conn (c # cs)) p lg = Ret n err (lg @ (?w # calls))"
      using r' l by simp
    moreover have "write_contract R lg (c # cs) p (?w # calls) n err"
      using write_contract_step[of R lg c p cs calls n err] r' wc by simp
    ultimately have "multiWriter_Write_loop R h held (map Conn (c # cs)) p lg = Ret n err (lg @ (?w # calls)) \<and>
        write_contract R lg (c # cs) p (?w # calls) n err"
      by (rule conjI)
    then show ?thesis by (intro exI)
  qed
qed




subsection \<open>Claims about the broadcaster\<close>

text \<open>
  C4. One \<open>Write(p)\<close> on a broadcaster whose destinations are the connections \<open>cs\<close>
  returns, and the calls it made are to the destinations in the order they were added,
  each with \<open>p\<close>. All calls but the last were accepted in full. If every call was
  accepted, every destination was reached and the result is \<open>(len(p), nil)\<close>; otherwise
  the last call failed, no later destination was called, and the result is the count of
  the failing call with its error, or \<open>io.ErrShortWrite\<close> when it reported none.
\<close>

theorem multiWriter_Write_contract:
  assumes "a < length h" and "h ! a = map Conn cs"
  shows "\<exists>calls n err.
     multiWriter_Write R h a p lg = Ret n err (lg @ calls) \<and>
     length calls \<le> length cs \<and>
     (\<forall>i<length calls.
        calls ! i = (case R (lg @ take i calls) (cs ! i) p of (m, e) \<Rightarrow> Wrote (cs ! i) p m e)) \<and>
     (\<forall>c\<in>set (butlast calls). accepted p c) \<and>
     (if (\<forall>c\<in>set calls. accepted p c)
      then length calls = length cs \<and> n = int (length p) \<and> err = None
      else (\<exists>c q m e. last calls = Wrote c q m e \<and> n = m \<and>
              err = Some (case e of Some x \<Rightarrow> x | None \<Rightarrow> io_ErrShortWrite)))"
proof -
  have "multiWriter_Write R h a p lg = multiWriter_Write_loop R h [a] (map Conn cs) p lg"
    using assms by (simp add: multiWriter_Write_def)
  then show ?thesis
    using loop_leaf[of R h "[a]" cs p lg] unfolding write_contract_def by simp
qed

theorem multiWriter_Write_contract_witness:
  "multiWriter_Write conns_short2 [[Conn 1, Conn 2, Conn 3]] 0 [104, 105] [] =
     Ret 1 (Some io_ErrShortWrite) [Wrote 1 [104, 105] 2 None, Wrote 2 [104, 105] 1 None] \<and>
   (\<exists>calls n err.
      multiWriter_Write conns_short2 [[Conn 1, Conn 2, Conn 3]] 0 [104, 105] [] = Ret n err calls \<and>
      length calls \<le> 3 \<and> \<not> (\<forall>c\<in>set calls. accepted [104, 105] c) \<and>
      (\<exists>c q m e. last calls = Wrote c q m e \<and> n = m \<and>
              err = Some (case e of Some x \<Rightarrow> x | None \<Rightarrow> io_ErrShortWrite)))"
proof -
  have ev: "multiWriter_Write conns_short2 [[Conn 1, Conn 2, Conn 3]] 0 [104, 105] [] =
     Ret 1 (Some io_ErrShortWrite) [Wrote 1 [104, 105] 2 None, Wrote 2 [104, 105] 1 None]"
    by (simp add: multiWriter_Write_def conns_short2_def)
  obtain calls n err where
    c: "multiWriter_Write conns_short2 [[Conn 1, Conn 2, Conn 3]] 0 [104, 105] [] = Ret n err ([] @ calls)"
      "length calls \<le> length [1, 2, 3::nat]"
      "if (\<forall>c\<in>set calls. accepted [104, 105] c)
      then length calls = length [1, 2, 3::nat] \<and> n = int (length [104, 105 :: byte]) \<and> err = None
      else (\<exists>c q m e. last calls = Wrote c q m e \<and> n = m \<and>
              err = Some (case e of Some x \<Rightarrow> x | None \<Rightarrow> io_ErrShortWrite))"
    using multiWriter_Write_contract[of 0 "[[Conn 1, Conn 2, Conn 3]]" "[1, 2, 3]" conns_short2
        "[104, 105]" "[]"]
    by auto
  from c(1) ev have calls: "calls = [Wrote 1 [104, 105] 2 None, Wrote 2 [104, 105] 1 None]"
    by simp
  then have no: "\<not> (\<forall>c\<in>set calls. accepted [104, 105] c)" by simp
  from c(3) have "\<exists>c q m e. last calls = Wrote c q m e \<and> n = m \<and>
              err = Some (case e of Some x \<Rightarrow> x | None \<Rightarrow> io_ErrShortWrite)"
    unfolding if_not_P[OF no] .
  with c(1,2) no ev show ?thesis by auto
qed




subsection \<open>Claims about handleStream\<close>

text \<open>
  Eleven accepted connections end the loop in the index-out-of-range panic, whatever
  follows them; the first ten are wired, the eleventh is accepted and not wired.
\<close>

theorem handleStream_eleven:
  assumes "length cs = 11"
  shows "handleStream (map Inr cs @ later) =
     (\<lparr>numClient = 11, conn_array = map Some (take 10 cs), mw_ptr = Some 0,
       objects = [map Conn (take 10 cs)],
       goroutines = CopyOut 0 # map CopyIn (take 10 cs)\<rparr>,
      IndexOutOfRange, True)"
proof -
  obtain c0 c1 c2 c3 c4 c5 c6 c7 c8 c9 c10 where
    cs: "cs = [c0, c1, c2, c3, c4, c5, c6, c7, c8, c9, c10]"
    using assms by (auto simp: eval_nat_numeral length_Suc_conv)
  show ?thesis
    unfolding cs
    by (simp add: handleStream_def maxClient_def MultiWriter_def multiWriter_Add_def Let_def
        eval_nat_numeral)
qed

text \<open>
  C3. With eleven connection attempts, ten clients are wired into the broadcaster; the
  iteration for \<open>numClient = 10\<close> only continues, and the next one accepts the eleventh
  connection and stores it at index 11 of the array of length 10: the loop ends in the
  index-out-of-range panic.
\<close>

theorem eleventh_client_panics:
  "handleStream (map Inr [100, 101, 102, 103, 104, 105, 106, 107, 108, 109, 110]) =
     (\<lparr>numClient = 11,
       conn_array = map Some [100, 101, 102, 103, 104, 105, 106, 107, 108, 109],
       mw_ptr = Some 0,
       objects = [map Conn [100, 101, 102, 103, 104, 105, 106, 107, 108, 109]],
       goroutines = [CopyOut 0, CopyIn 100, CopyIn 101, CopyIn 102, CopyIn 103, CopyIn 104,
                     CopyIn 105, CopyIn 106, CopyIn 107, CopyIn 108, CopyIn 109]\<rparr>,
      IndexOutOfRange, True)"
  by (simp add: handleStream_def maxClient_def MultiWriter_def multiWriter_Add_def Let_def
      eval_nat_numeral)

text \<open>
  The same holds when an accept error follows the eleventh connection: the loop has
  ended before it is read.
\<close>

theorem handleStream_eleven_witness:
  "handleStream (map Inr [1, 2, 3, 4, 5, 6, 7, 8, 9, 10, 11] @ [Inl (Error ''use of closed network connection'')]) =
     (\<lparr>numClient = 11, conn_array = map Some [1, 2, 3, 4, 5, 6, 7, 8, 9, 10], mw_ptr = Some 0,
       objects = [map Conn [1, 2, 3, 4, 5, 6, 7, 8, 9, 10]],
       goroutines = CopyOut 0 # map CopyIn [1, 2, 3, 4, 5, 6, 7, 8, 9, 10]\<rparr>,
      IndexOutOfRange, True)"
  using handleStream_eleven[of "[1, 2, 3, 4, 5, 6, 7, 8, 9, 10, 11]"
      "[Inl (Error ''use of closed network connection'')]"]
  by simp

end
